theory Spec2Isabelle
  imports Main
begin

section \<open>Data\<close>

text \<open>
  The interfaces \<^verbatim>\<open>VersionData\<close> and \<^verbatim>\<open>StorageData\<close> of \<^verbatim>\<open>scriptUpdater.ts\<close>, the update
  check intervals, and what the module reads of a \<^verbatim>\<open>Response\<close>. Time stamps are
  milliseconds since the epoch.
\<close>

type_synonym time = int

record VersionData =
  version :: string
  date :: string
  notes' :: string
  url :: string

record StorageData =
  lastChecked :: time
  versions :: "VersionData list"

datatype UpdateCheckInterval = EveryTime | Daily | Weekly | Monthly

text \<open>
  A response: \<^verbatim>\<open>ok\<close>, \<^verbatim>\<open>status\<close>, \<^verbatim>\<open>statusText\<close>, the value of \<^verbatim>\<open>json()\<close> (\<open>None\<close> when
  the body is not JSON and \<^verbatim>\<open>json()\<close> rejects) and the value of \<^verbatim>\<open>bytes()\<close>. The source
  casts the parsed body to \<^verbatim>\<open>VersionData[]\<close> unchecked; the model has the typed bodies only.
\<close>

datatype response =
  Response (ok: bool) (status: nat) (statusText: string)
    (json: "VersionData list option") (bytes: string)

text \<open>
  What the functions throw: \<^verbatim>\<open>new Error(message)\<close>, \<^verbatim>\<open>new DownloadError(url, response)\<close>,
  and the rejections of the host's operations (a request that fails, a body that is not
  JSON, a file operation that fails).
\<close>

datatype error =
  Error string
  | DownloadError string response
  | FetchFailed
  | JsonSyntaxError
  | FileError

section \<open>Version comparison (\<^verbatim>\<open>compareVersion\<close>)\<close>

subsection \<open>Regular expressions\<close>

text \<open>
  The pattern of \<^verbatim>\<open>compareVersion\<close> is \<^verbatim>\<open>/^\d+(?:\.\d+){0,3}$/\<close>. It has no flags, so
  \<^verbatim>\<open>^\<close> and \<^verbatim>\<open>$\<close> anchor at the two ends of the input and \<^verbatim>\<open>\d\<close> is an ASCII digit:
  \<^verbatim>\<open>regex.test(s)\<close> says whether the whole of \<open>s\<close> matches the body of the pattern.
  The body is written as a term of the datatype below and matched by derivatives.
  Strings are lists of bytes; the bytes of a character outside ASCII are neither
  digits nor dots, as the UTF-16 units of the source's strings are not.
\<close>

datatype regex =
  Fail
  | Eps
  | Digit
  | Chr char
  | Seq regex regex
  | Alt regex regex
  | Star regex

definition is_digit :: "char \<Rightarrow> bool" where
  "is_digit c = (48 \<le> (of_char c :: nat) \<and> (of_char c :: nat) \<le> 57)"

fun nullable :: "regex \<Rightarrow> bool" where
  "nullable Fail = False"
| "nullable Eps = True"
| "nullable Digit = False"
| "nullable (Chr c) = False"
| "nullable (Seq r s) = (nullable r \<and> nullable s)"
| "nullable (Alt r s) = (nullable r \<or> nullable s)"
| "nullable (Star r) = True"

fun deriv :: "char \<Rightarrow> regex \<Rightarrow> regex" where
  "deriv c Fail = Fail"
| "deriv c Eps = Fail"
| "deriv c Digit = (if is_digit c then Eps else Fail)"
| "deriv c (Chr d) = (if c = d then Eps else Fail)"
| "deriv c (Seq r s) =
     (if nullable r then Alt (Seq (deriv c r) s) (deriv c s) else Seq (deriv c r) s)"
| "deriv c (Alt r s) = Alt (deriv c r) (deriv c s)"
| "deriv c (Star r) = Seq (deriv c r) (Star r)"

fun regex_test :: "regex \<Rightarrow> string \<Rightarrow> bool" where
  "regex_test r [] = nullable r"
| "regex_test r (c # cs) = regex_test (deriv c r) cs"

text \<open>\<^verbatim>\<open>r+\<close> and \<^verbatim>\<open>r{0,n}\<close>.\<close>

definition one_or_more :: "regex \<Rightarrow> regex" where
  "one_or_more r = Seq r (Star r)"

fun at_most :: "nat \<Rightarrow> regex \<Rightarrow> regex" where
  "at_most 0 r = Eps"
| "at_most (Suc n) r = Alt (Seq r (at_most n r)) Eps"

text \<open>The body of \<^verbatim>\<open>/^\d+(?:\.\d+){0,3}$/\<close>.\<close>

definition version_regex :: regex where
  "version_regex =
     Seq (one_or_more Digit) (at_most 3 (Seq (Chr (CHR ''.'')) (one_or_more Digit)))"

subsection \<open>Numbers, \<^verbatim>\<open>split\<close> and \<^verbatim>\<open>parseInt\<close>\<close>

text \<open>
  A JavaScript number is an IEEE 754 double. The numbers that arise in this module are
  the doubles whose value is an integer, the two infinities and \<^verbatim>\<open>NaN\<close>; \<open>Num n\<close> is the
  double whose value is the integer \<open>n\<close>.

  \<open>to_number n\<close> is the Number value for the integer \<open>n\<close>: the nearest double, the one with
  the even significand when two are as near, and an infinity from \<open>2 ^ 1024\<close> on. A
  double has 53 bits of significand: \<open>exponent n\<close> is the number of low bits of \<open>n\<close> that do
  not fit (none below \<open>2 ^ 53 = 9007199254740992\<close>), and \<open>round_half_even\<close> rounds them
  away.
\<close>

datatype number = Num int | Infinity | NegInfinity | NaN

function exponent :: "int \<Rightarrow> nat" where
  "exponent n = (if n < 9007199254740992 then 0 else Suc (exponent (n div 2)))"
  by pat_completeness auto
termination
  by (relation "measure nat") auto

declare exponent.simps [simp del]

definition round_half_even :: "int \<Rightarrow> int" where
  "round_half_even n =
     (let u = 2 ^ exponent n; q = n div u; r = n mod u
      in (if u < 2 * r \<or> (2 * r = u \<and> odd q) then q + 1 else q) * u)"

definition to_number :: "int \<Rightarrow> number" where
  "to_number n =
     (let m = round_half_even \<bar>n\<bar>
      in if 2 ^ 1024 \<le> m then (if n < 0 then NegInfinity else Infinity)
         else Num (if n < 0 then - m else m))"

text \<open>
  \<^verbatim>\<open>x - y\<close>: the difference of two doubles is their exact difference, rounded; the
  difference of an infinity and itself is \<^verbatim>\<open>NaN\<close>, and so is a difference with a \<^verbatim>\<open>NaN\<close>
  operand. \<^verbatim>\<open>-x\<close> is \<open>negate x\<close>. \<^verbatim>\<open>NaN !== 0\<close> holds and \<^verbatim>\<open>NaN > 0\<close> does not. Reading an
  array past its end gives \<^verbatim>\<open>undefined\<close>, which the subtraction turns into \<^verbatim>\<open>NaN\<close>.
\<close>

fun minus_number :: "number \<Rightarrow> number \<Rightarrow> number" where
  "minus_number (Num x) (Num y) = to_number (x - y)"
| "minus_number NaN y = NaN"
| "minus_number x NaN = NaN"
| "minus_number Infinity Infinity = NaN"
| "minus_number NegInfinity NegInfinity = NaN"
| "minus_number Infinity y = Infinity"
| "minus_number NegInfinity y = NegInfinity"
| "minus_number (Num x) Infinity = NegInfinity"
| "minus_number (Num x) NegInfinity = Infinity"

fun negate :: "number \<Rightarrow> number" where
  "negate (Num x) = Num (- x)"
| "negate Infinity = NegInfinity"
| "negate NegInfinity = Infinity"
| "negate NaN = NaN"

fun positive :: "number \<Rightarrow> bool" where
  "positive (Num x) = (0 < x)"
| "positive Infinity = True"
| "positive NegInfinity = False"
| "positive NaN = False"

definition at :: "number list \<Rightarrow> nat \<Rightarrow> number" where
  "at xs i = (if i < length xs then xs ! i else NaN)"

text \<open>\<^verbatim>\<open>s.split(".")\<close>: the pieces between the separators, one more than there are
  separators; the empty string gives one empty piece.\<close>

fun split :: "char \<Rightarrow> string \<Rightarrow> string list" where
  "split sep [] = [[]]"
| "split sep (c # cs) =
     (if c = sep then [] # split sep cs
      else (case split sep cs of [] \<Rightarrow> [[c]] | p # ps \<Rightarrow> (c # p) # ps))"

text \<open>
  \<^verbatim>\<open>parseInt(i)\<close> with no radix, on the strings that reach it here: the Number value for
  the integer that the leading digits write in base ten, \<^verbatim>\<open>NaN\<close> when there is no digit.
  (ECMAScript lets an implementation replace the digits after the twentieth by zeros;
  the engines round the integer as it is written, and so does the model.) The white
  space, sign and \<^verbatim>\<open>0x\<close> prefix that \<^verbatim>\<open>parseInt\<close> also accepts are not modelled: every
  string that passes the pattern splits into non-empty strings of digits (lemma
  \<open>regex_test_valid_version\<close> below).
\<close>

definition digit_value :: "char \<Rightarrow> int" where
  "digit_value c = int (of_char c) - 48"

definition parseInt :: "string \<Rightarrow> number" where
  "parseInt s =
     (case takeWhile is_digit s of
        [] \<Rightarrow> NaN
      | d # ds \<Rightarrow> to_number (foldl (\<lambda>n c. 10 * n + digit_value c) 0 (d # ds)))"

subsection \<open>\<^verbatim>\<open>compareVersion\<close>\<close>

text \<open>The \<^verbatim>\<open>for\<close> loop of \<^verbatim>\<open>compareVersion\<close>, from index \<open>i\<close> on.\<close>

function compare_loop :: "number list \<Rightarrow> number list \<Rightarrow> nat \<Rightarrow> number" where
  "compare_loop aParts bParts i =
     (if i < length aParts then
        (let result = minus_number (at aParts i) (at bParts i)
         in if result \<noteq> Num 0 then result else compare_loop aParts bParts (i + 1))
      else Num 0)"
  by pat_completeness auto
termination
  by (relation "measure (\<lambda>(aParts, bParts, i). length aParts - i)") auto

declare compare_loop.simps [simp del]

definition compareVersion :: "string \<Rightarrow> string \<Rightarrow> error + number" where
  \<open>compareVersion a b =
     (if \<not> regex_test version_regex a then
        Inl (Error (''Parameter "a" is not a version: "'' @ a @ ''"''))
      else if \<not> regex_test version_regex b then
        Inl (Error (''Parameter "b" is not a version: "'' @ b @ ''"''))
      else
        (let aParts0 = map parseInt (split (CHR ''.'') a);
             bParts = map parseInt (split (CHR ''.'') b);
             aParts = (if length aParts0 < length bParts
                       then aParts0 @ replicate (length bParts - length aParts0) (Num 0)
                       else aParts0);
             bParts = (if length bParts < length aParts
                       then bParts @ replicate (length aParts - length bParts) (Num 0)
                       else bParts)
         in Inr (compare_loop aParts bParts 0)))\<close>

section \<open>Dates\<close>

text \<open>
  A \<^verbatim>\<open>Date\<close> is its time value. The functions below are those of the ECMAScript
  specification of \<^verbatim>\<open>Date\<close> (Day, TimeWithinDay, DayFromYear, YearFromTime,
  MonthFromTime, DateFromTime, MakeDay, MakeDate, LocalTime, UTC), on unbounded
  integers. The time zone of the host is its function \<open>LocalTZA\<close>: \<open>zone t True\<close> is the
  offset of local time in force at the time value \<open>t\<close>, and \<open>zone t False\<close> the offset in
  force when the local clock shows \<open>t\<close>. The two differ around a change of the offset, as
  at the start and the end of daylight saving time.
\<close>

type_synonym zone = "time \<Rightarrow> bool \<Rightarrow> int"

definition msPerDay :: int where
  "msPerDay = 86400000"

definition Day :: "time \<Rightarrow> int" where
  "Day t = t div msPerDay"

definition TimeWithinDay :: "time \<Rightarrow> int" where
  "TimeWithinDay t = t mod msPerDay"

definition InLeapYear :: "int \<Rightarrow> int" where
  "InLeapYear y =
     (if y mod 4 \<noteq> 0 then 0 else if y mod 100 \<noteq> 0 then 1 else if y mod 400 \<noteq> 0 then 0 else 1)"

definition DayFromYear :: "int \<Rightarrow> int" where
  "DayFromYear y =
     365 * (y - 1970) + (y - 1969) div 4 - (y - 1901) div 100 + (y - 1601) div 400"

text \<open>
  The year of a day number: the largest \<open>y\<close> with \<open>DayFromYear y \<le> d\<close> (lemma
  \<open>YearFromDay_bounds\<close>), found from an estimate that is off by one at most.
\<close>

definition YearFromDay :: "int \<Rightarrow> int" where
  "YearFromDay d =
     (let y = 1970 + (400 * d) div 146097
      in if DayFromYear (y + 1) \<le> d then y + 1
         else if DayFromYear y \<le> d then y
         else y - 1)"

definition YearFromTime :: "time \<Rightarrow> int" where
  "YearFromTime t = YearFromDay (Day t)"

definition DayWithinYear :: "time \<Rightarrow> int" where
  "DayWithinYear t = Day t - DayFromYear (YearFromTime t)"

text \<open>The day within the year on which month \<open>m\<close> (0 to 11) starts.\<close>

definition month_start :: "int \<Rightarrow> int \<Rightarrow> int" where
  "month_start leap m =
     (if m = 0 then 0 else if m = 1 then 31 else if m = 2 then 59 + leap
      else if m = 3 then 90 + leap else if m = 4 then 120 + leap
      else if m = 5 then 151 + leap else if m = 6 then 181 + leap
      else if m = 7 then 212 + leap else if m = 8 then 243 + leap
      else if m = 9 then 273 + leap else if m = 10 then 304 + leap
      else 334 + leap)"

definition MonthFromTime :: "time \<Rightarrow> int" where
  "MonthFromTime t =
     (let d = DayWithinYear t; leap = InLeapYear (YearFromTime t)
      in if d < 31 then 0 else if d < 59 + leap then 1 else if d < 90 + leap then 2
         else if d < 120 + leap then 3 else if d < 151 + leap then 4
         else if d < 181 + leap then 5 else if d < 212 + leap then 6
         else if d < 243 + leap then 7 else if d < 273 + leap then 8
         else if d < 304 + leap then 9 else if d < 334 + leap then 10
         else 11)"

definition DateFromTime :: "time \<Rightarrow> int" where
  "DateFromTime t =
     DayWithinYear t - month_start (InLeapYear (YearFromTime t)) (MonthFromTime t) + 1"

definition MakeDay :: "int \<Rightarrow> int \<Rightarrow> int \<Rightarrow> int" where
  "MakeDay year month dt =
     (let ym = year + month div 12; mn = month mod 12
      in DayFromYear ym + month_start (InLeapYear ym) mn + dt - 1)"

definition MakeDate :: "int \<Rightarrow> int \<Rightarrow> time" where
  "MakeDate day tm = day * msPerDay + tm"

definition LocalTime :: "zone \<Rightarrow> time \<Rightarrow> time" where
  "LocalTime zone t = t + zone t True"

definition UTC :: "zone \<Rightarrow> time \<Rightarrow> time" where
  "UTC zone t = t - zone t False"

text \<open>
  The methods of \<^verbatim>\<open>Date\<close> that the module calls. A setter mutates the object in the
  source; here it returns the new time value. \<open>setHours0\<close> is \<^verbatim>\<open>setHours(0, 0, 0, 0)\<close>.
\<close>

definition getDate :: "zone \<Rightarrow> time \<Rightarrow> int" where
  "getDate zone d = DateFromTime (LocalTime zone d)"

definition getMonth :: "zone \<Rightarrow> time \<Rightarrow> int" where
  "getMonth zone d = MonthFromTime (LocalTime zone d)"

definition setDate :: "zone \<Rightarrow> time \<Rightarrow> int \<Rightarrow> time" where
  "setDate zone d dt =
     (let t = LocalTime zone d
      in UTC zone (MakeDate (MakeDay (YearFromTime t) (MonthFromTime t) dt) (TimeWithinDay t)))"

definition setMonth :: "zone \<Rightarrow> time \<Rightarrow> int \<Rightarrow> time" where
  "setMonth zone d m =
     (let t = LocalTime zone d
      in UTC zone (MakeDate (MakeDay (YearFromTime t) m (DateFromTime t)) (TimeWithinDay t)))"

definition setHours0 :: "zone \<Rightarrow> time \<Rightarrow> time" where
  "setHours0 zone d = (let t = LocalTime zone d in UTC zone (MakeDate (Day t) 0))"

section \<open>The host\<close>

text \<open>
  What the module takes from its host, as one record: the name and directory of the
  script, the temporary directory, the time zone, the clock (\<open>now\<close> is what
  \<^verbatim>\<open>new Date()\<close> gives while the cutoffs are computed, \<open>now_fetched\<close> what it gives once
  the manifest has been read), the answer of \<^verbatim>\<open>fetch\<close> to a URL (\<open>None\<close> when the request
  fails and \<^verbatim>\<open>fetch\<close> rejects), what \<^verbatim>\<open>Storage.set\<close> returns, \<^verbatim>\<open>Data.fromArrayBuffer\<close>
  (\<open>None\<close> for \<^verbatim>\<open>null\<close>), the entries that \<^verbatim>\<open>unzip\<close> finds in the bytes of an archive
  (\<open>None\<close> when they are no archive), and which of the file operations fail for a reason
  of the host's own (by their position in the sequence of operations).
\<close>

record env =
  script_name :: string
  script_directory :: string
  temporary_directory :: string
  LocalTZA :: zone
  now :: time
  now_fetched :: time
  fetch :: "string \<Rightarrow> response option"
  storage_set :: bool
  fromArrayBuffer :: "string \<Rightarrow> string option"
  archive_entries :: "string \<Rightarrow> (string \<times> string) list option"
  fs_fault :: "nat \<Rightarrow> bool"

text \<open>
  \<^verbatim>\<open>Path.join\<close> on a directory and a name: the two with a separator between them (the
  directory is taken not to end with one). The three constants at the head of the module
  follow.
\<close>

definition Path_join :: "string \<Rightarrow> string \<Rightarrow> string" where
  "Path_join dir name = dir @ ''/'' @ name"

definition storageKey :: "env \<Rightarrow> string" where
  "storageKey e = ''scriptUpdater.'' @ script_name e"

definition unzippedFolder :: "env \<Rightarrow> string" where
  "unzippedFolder e = Path_join (temporary_directory e) ''scriptUpdate''"

definition scriptBackup :: "env \<Rightarrow> string" where
  "scriptBackup e = script_directory e @ ''_updateBackup''"

section \<open>The update check (\<^verbatim>\<open>updateAvailable\<close>, \<^verbatim>\<open>getCache\<close>)\<close>

text \<open>The key-value store: \<^verbatim>\<open>Storage.get\<close> gives \<^verbatim>\<open>null\<close> (\<open>None\<close>) for a key never set.\<close>

type_synonym storage = "string \<rightharpoonup> StorageData"

definition Storage_get :: "storage \<Rightarrow> string \<Rightarrow> StorageData option" where
  "Storage_get st k = st k"

definition getIntervalDate :: "env \<Rightarrow> (time \<Rightarrow> time) option \<Rightarrow> time" where
  "getIntervalDate e adjust =
     (let d = now e;
          d = (case adjust of None \<Rightarrow> d | Some f \<Rightarrow> f d)
      in setHours0 (LocalTZA e) d)"

definition intervalDates :: "env \<Rightarrow> UpdateCheckInterval \<Rightarrow> time" where
  "intervalDates e interval =
     (case interval of
        EveryTime \<Rightarrow> now e
      | Daily \<Rightarrow> getIntervalDate e None
      | Weekly \<Rightarrow> getIntervalDate e (Some (\<lambda>d. setDate (LocalTZA e) d (getDate (LocalTZA e) d - 7)))
      | Monthly \<Rightarrow> getIntervalDate e (Some (\<lambda>d. setMonth (LocalTZA e) d (getMonth (LocalTZA e) d - 1))))"

text \<open>Lines 34 to 38: the stored record, or the default one.\<close>

definition load_cached :: "env \<Rightarrow> storage \<Rightarrow> StorageData" where
  "load_cached e st =
     (case Storage_get st (storageKey e) of
        Some c \<Rightarrow> c
      | None \<Rightarrow> \<lparr>lastChecked = 0, versions = []\<rparr>)"

text \<open>
  \<^verbatim>\<open>versions.filter(v => compareVersion(v.version, currentVersion) > 0)\<close>: the entries
  are tested from the left, and the first comparison that throws ends the filter.
\<close>

fun filter_newer :: "VersionData list \<Rightarrow> string \<Rightarrow> error + VersionData list" where
  "filter_newer [] currentVersion = Inr []"
| "filter_newer (v # vs) currentVersion =
     (case compareVersion (version v) currentVersion of
        Inl err \<Rightarrow> Inl err
      | Inr n \<Rightarrow>
          (case filter_newer vs currentVersion of
             Inl err \<Rightarrow> Inl err
           | Inr newer \<Rightarrow> Inr (if positive n then v # newer else newer)))"

text \<open>
  A call of \<^verbatim>\<open>updateAvailable\<close> gives what it returns or throws, the store it leaves,
  the URLs it requested and the lines it logged.
\<close>

record check_outcome =
  result :: "error + VersionData list"
  storage_after :: storage
  requests :: "string list"
  console :: "string list"

definition updateAvailable ::
  "env \<Rightarrow> storage \<Rightarrow> string \<Rightarrow> UpdateCheckInterval \<Rightarrow> string \<Rightarrow> check_outcome" where
  "updateAvailable e st manifest interval currentVersion =
     (let cached = load_cached e st
      in if lastChecked cached \<le> intervalDates e interval then
           (case fetch e manifest of
              None \<Rightarrow>
                \<lparr>result = Inl FetchFailed, storage_after = st,
                 requests = [manifest], console = []\<rparr>
            | Some response \<Rightarrow>
                (case json response of
                   None \<Rightarrow>
                     \<lparr>result = Inl JsonSyntaxError, storage_after = st,
                      requests = [manifest], console = []\<rparr>
                 | Some body \<Rightarrow>
                     (let cached = cached\<lparr>versions := body\<rparr>;
                          cached = cached\<lparr>lastChecked := now_fetched e\<rparr>
                      in \<lparr>result = filter_newer (versions cached) currentVersion,
                          storage_after =
                            (if storage_set e then st(storageKey e \<mapsto> cached) else st),
                          requests = [manifest],
                          console =
                            (if storage_set e then []
                             else [''WARNING: could not write update data to Storage''])\<rparr>)))
         else
           \<lparr>result = filter_newer (versions cached) currentVersion, storage_after = st,
            requests = [], console = []\<rparr>)"

definition getCache :: "env \<Rightarrow> storage \<Rightarrow> StorageData option" where
  "getCache e st = Storage_get st (storageKey e)"

section \<open>Download, install and clean up\<close>

subsection \<open>The file system of the host\<close>

text \<open>
  The file operations are the host's. The model keeps what the module can observe of
  them: a path holds a file (its bytes) or a directory (the files below it, by relative
  path, with their contents), and every operation the module asks for is recorded in
  \<open>calls\<close>. An operation fails, changing nothing, when the host says so (\<open>fs_fault\<close> at
  its position in \<open>calls\<close>) or when its arguments do not fit: a rename whose source is
  missing or whose target exists, a removal of a missing path, an extraction from
  something that is no archive or into something that is no directory. An extraction
  puts the entries of the archive into the directory, over the entries of the same name
  and beside the others. A listing gives the names in the directory; their order is the
  host's, so the model gives their set. The paths the module uses are not nested in one
  another.
\<close>

type_synonym entries = "(string \<times> string) list"

datatype node = File string | Dir entries

datatype fs_call =
  WriteAsData string
  | CreateDirectory string
  | Unzip string string
  | ReadDirectory string
  | Rename string string
  | Remove string

record host =
  files :: "string \<rightharpoonup> node"
  calls :: "fs_call list"

fun put_entry :: "string \<times> string \<Rightarrow> entries \<Rightarrow> entries" where
  "put_entry (name, content) [] = [(name, content)]"
| "put_entry (name, content) ((name', content') # es) =
     (if name' = name then (name, content) # es
      else (name', content') # put_entry (name, content) es)"

definition unzip_into :: "entries \<Rightarrow> entries \<Rightarrow> entries" where
  "unzip_into archive dir = foldl (\<lambda>d x. put_entry x d) dir archive"

definition fs_op ::
  "env \<Rightarrow> fs_call \<Rightarrow> ((string \<rightharpoonup> node) \<Rightarrow> ('a \<times> (string \<rightharpoonup> node)) option) \<Rightarrow> host \<Rightarrow>
     (error + 'a) \<times> host" where
  "fs_op e c f h =
     (let h' = h\<lparr>calls := calls h @ [c]\<rparr>
      in if fs_fault e (length (calls h)) then (Inl FileError, h')
         else (case f (files h) of
                 None \<Rightarrow> (Inl FileError, h')
               | Some (x, fs) \<Rightarrow> (Inr x, h'\<lparr>files := fs\<rparr>)))"

definition existsSync :: "string \<Rightarrow> host \<Rightarrow> bool" where
  "existsSync path h = (files h path \<noteq> None)"

definition writeAsData :: "env \<Rightarrow> string \<Rightarrow> string \<Rightarrow> host \<Rightarrow> (error + unit) \<times> host" where
  "writeAsData e path content =
     fs_op e (WriteAsData path)
       (\<lambda>fs. case fs path of
                Some (Dir _) \<Rightarrow> None
              | _ \<Rightarrow> Some ((), fs(path \<mapsto> File content)))"

definition createDirectory :: "env \<Rightarrow> string \<Rightarrow> bool \<Rightarrow> host \<Rightarrow> (error + unit) \<times> host" where
  "createDirectory e path recursive =
     fs_op e (CreateDirectory path)
       (\<lambda>fs. case fs path of
                None \<Rightarrow> Some ((), fs(path \<mapsto> Dir []))
              | Some (Dir _) \<Rightarrow> (if recursive then Some ((), fs) else None)
              | Some (File _) \<Rightarrow> None)"

definition unzip :: "env \<Rightarrow> string \<Rightarrow> string \<Rightarrow> host \<Rightarrow> (error + unit) \<times> host" where
  "unzip e path target =
     fs_op e (Unzip path target)
       (\<lambda>fs. case fs path of
                Some (File content) \<Rightarrow>
                  (case archive_entries e content of
                     None \<Rightarrow> None
                   | Some archive \<Rightarrow>
                       (case fs target of
                          Some (Dir old) \<Rightarrow> Some ((), fs(target \<mapsto> Dir (unzip_into archive old)))
                        | _ \<Rightarrow> None))
              | _ \<Rightarrow> None)"

definition readDirectory :: "env \<Rightarrow> string \<Rightarrow> bool \<Rightarrow> host \<Rightarrow> (error + string set) \<times> host" where
  "readDirectory e path recursive =
     fs_op e (ReadDirectory path)
       (\<lambda>fs. case fs path of
                Some (Dir es) \<Rightarrow> Some (fst ` set es, fs)
              | _ \<Rightarrow> None)"

definition rename :: "env \<Rightarrow> string \<Rightarrow> string \<Rightarrow> host \<Rightarrow> (error + unit) \<times> host" where
  "rename e source target =
     fs_op e (Rename source target)
       (\<lambda>fs. case fs source of
                None \<Rightarrow> None
              | Some n \<Rightarrow>
                  (if fs target \<noteq> None then None
                   else Some ((), (fs(source := None))(target \<mapsto> n))))"

definition remove :: "env \<Rightarrow> string \<Rightarrow> host \<Rightarrow> (error + unit) \<times> host" where
  "remove e path =
     fs_op e (Remove path)
       (\<lambda>fs. if fs path = None then None else Some ((), fs(path := None)))"

subsection \<open>\<^verbatim>\<open>downloadUpdate\<close>, \<^verbatim>\<open>installDownloadedScript\<close>, \<^verbatim>\<open>cleanFiles\<close>\<close>

text \<open>
  Each function gives what it returns or throws and the file system it leaves. A
  failed step ends the function with the file system as that step left it.
\<close>

definition downloadUpdate :: "env \<Rightarrow> string \<Rightarrow> host \<Rightarrow> (error + string set) \<times> host" where
  "downloadUpdate e address h =
     (let path = Path_join (temporary_directory e) ''scriptUpdate.zip''
      in case fetch e address of
           None \<Rightarrow> (Inl FetchFailed, h)
         | Some response \<Rightarrow>
             if \<not> ok response then (Inl (DownloadError address response), h)
             else
               (case fromArrayBuffer e (bytes response) of
                  None \<Rightarrow> (Inl (Error ''Could not convert from ArrayBuffer to data''), h)
                | Some content \<Rightarrow>
                    (case writeAsData e path content h of
                       (Inl err, h1) \<Rightarrow> (Inl err, h1)
                     | (Inr _, h1) \<Rightarrow>
                         (case (if \<not> existsSync (unzippedFolder e) h1
                                then createDirectory e (unzippedFolder e) True h1
                                else (Inr (), h1)) of
                            (Inl err, h2) \<Rightarrow> (Inl err, h2)
                          | (Inr _, h2) \<Rightarrow>
                              (case unzip e path (unzippedFolder e) h2 of
                                 (Inl err, h3) \<Rightarrow> (Inl err, h3)
                               | (Inr _, h3) \<Rightarrow> readDirectory e (unzippedFolder e) True h3)))))"

definition installDownloadedScript :: "env \<Rightarrow> host \<Rightarrow> (error + unit) \<times> host" where
  "installDownloadedScript e h =
     (case rename e (script_directory e) (scriptBackup e) h of
        (Inl err, h1) \<Rightarrow> (Inl err, h1)
      | (Inr _, h1) \<Rightarrow> rename e (unzippedFolder e) (script_directory e) h1)"

definition cleanFiles :: "env \<Rightarrow> host \<Rightarrow> (error + unit) \<times> host" where
  "cleanFiles e h =
     (case (if existsSync (scriptBackup e) h then remove e (scriptBackup e) h
            else (Inr (), h)) of
        (Inl err, h1) \<Rightarrow> (Inl err, h1)
      | (Inr _, h1) \<Rightarrow>
          (if existsSync (unzippedFolder e) h1 then remove e (unzippedFolder e) h1
           else (Inr (), h1)))"

subsection \<open>\<^verbatim>\<open>DownloadError.toString\<close>\<close>

text \<open>A number in a template literal: the status in decimal.\<close>

definition digit_char :: "nat \<Rightarrow> char" where
  "digit_char d = ''0123456789'' ! d"

fun string_of_nat :: "nat \<Rightarrow> string" where
  "string_of_nat n =
     (if n < 10 then [digit_char n]
      else string_of_nat (n div 10) @ [digit_char (n mod 10)])"

declare string_of_nat.simps [simp del]

definition toString :: "string \<Rightarrow> response \<Rightarrow> string" where
  "toString address response =
     ''Failed to download the update from '' @ address @ '': '' @
       string_of_nat (status response) @ '' '' @ statusText response"

section \<open>The notions of the specification\<close>

subsection \<open>Versions\<close>

text \<open>
  The grammar of versions: one to four components separated by dots, each a non-empty
  string of decimal digits.
\<close>

definition digits :: "string \<Rightarrow> bool" where
  "digits p = (p \<noteq> [] \<and> list_all is_digit p)"

definition valid_version :: "string \<Rightarrow> bool" where
  "valid_version s =
     (let parts = split (CHR ''.'') s
      in 1 \<le> length parts \<and> length parts \<le> 4 \<and> list_all digits parts)"

text \<open>
  The comparison of the specification: the components as numbers, the shorter list
  padded with zeros to the length of the longer, and the first difference that is not
  zero, from the left; zero when there is none. The numbers of the specification are
  the integers.
\<close>

fun decimal_rev :: "string \<Rightarrow> int" where
  "decimal_rev [] = 0"
| "decimal_rev (c # cs) = digit_value c + 10 * decimal_rev cs"

definition decimal :: "string \<Rightarrow> int" where
  "decimal s = decimal_rev (rev s)"

definition components :: "string \<Rightarrow> int list" where
  "components s = map decimal (split (CHR ''.'') s)"

definition pad_zeros :: "nat \<Rightarrow> int list \<Rightarrow> int list" where
  "pad_zeros n xs = xs @ replicate (n - length xs) 0"

fun first_difference :: "int list \<Rightarrow> int list \<Rightarrow> int" where
  "first_difference (x # xs) (y # ys) = (if x - y \<noteq> 0 then x - y else first_difference xs ys)"
| "first_difference _ _ = 0"

definition spec_compare :: "string \<Rightarrow> string \<Rightarrow> int" where
  "spec_compare a b =
     (let n = max (length (components a)) (length (components b))
      in first_difference (pad_zeros n (components a)) (pad_zeros n (components b)))"

text \<open>
  The versions whose components are safe integers, at most
  \<^verbatim>\<open>Number.MAX_SAFE_INTEGER\<close> \<open>= 2 ^ 53 - 1\<close>, and the versions whose components are finite as
  numbers, which they are up to about \<open>1.797e308\<close>.
\<close>

definition safe_version :: "string \<Rightarrow> bool" where
  "safe_version s = list_all (\<lambda>c. c \<le> 9007199254740991) (components s)"

definition finite_version :: "string \<Rightarrow> bool" where
  "finite_version s = list_all (\<lambda>p. parseInt p \<noteq> Infinity) (split (CHR ''.'') s)"

subsection \<open>Cutoffs\<close>

text \<open>
  The moment at which the local day of a moment starts, the moment that is a number of
  days earlier on the local clock, the number of days of a month (0 to 11) of a year, and
  the month before a month of a year.
\<close>

definition local_midnight :: "zone \<Rightarrow> time \<Rightarrow> time" where
  "local_midnight zone t = UTC zone (Day (LocalTime zone t) * msPerDay)"

definition days_earlier :: "zone \<Rightarrow> int \<Rightarrow> time \<Rightarrow> time" where
  "days_earlier zone k t = UTC zone (LocalTime zone t - k * msPerDay)"

definition days_in_month :: "int \<Rightarrow> int \<Rightarrow> int" where
  "days_in_month y m =
     (if m = 1 then 28 + InLeapYear y
      else if m = 3 \<or> m = 5 \<or> m = 8 \<or> m = 10 then 30
      else 31)"

definition previous_month :: "int \<times> int \<Rightarrow> int \<times> int" where
  "previous_month ym = (if snd ym = 0 then (fst ym - 1, 11) else (fst ym, snd ym - 1))"

text \<open>The number of days of the month before the month of a local time value.\<close>

definition previous_month_length :: "time \<Rightarrow> int" where
  "previous_month_length t =
     days_in_month (fst (previous_month (YearFromTime t, MonthFromTime t)))
                   (snd (previous_month (YearFromTime t, MonthFromTime t)))"

subsection \<open>Newer versions\<close>

text \<open>
  The entries of a list that are newer than the current version, in the order of the
  list, and the lists all of whose entries carry a version of the grammar.
\<close>

definition newer_versions :: "string \<Rightarrow> VersionData list \<Rightarrow> VersionData list" where
  "newer_versions currentVersion vs = filter (\<lambda>v. 0 < spec_compare (version v) currentVersion) vs"

definition all_valid :: "VersionData list \<Rightarrow> bool" where
  "all_valid vs = list_all (\<lambda>v. valid_version (version v)) vs"

definition all_safe :: "VersionData list \<Rightarrow> bool" where
  "all_safe vs = list_all (\<lambda>v. safe_version (version v)) vs"

subsection \<open>What a download leaves alone\<close>

text \<open>
  The file operations that a download may ask for, and what a state \<open>h'\<close> reached from
  \<open>h\<close> by a download has kept: the calls since \<open>h\<close> are among those operations, none of
  them a removal or a rename, with the staging directory created only if it was absent;
  a staging directory of \<open>h\<close> is still a directory and holds at least the names it held;
  and no path but the archive and the staging directory has changed.
\<close>

definition download_calls :: "env \<Rightarrow> fs_call set" where
  "download_calls e =
     {WriteAsData (Path_join (temporary_directory e) ''scriptUpdate.zip''),
      CreateDirectory (unzippedFolder e),
      Unzip (Path_join (temporary_directory e) ''scriptUpdate.zip'') (unzippedFolder e),
      ReadDirectory (unzippedFolder e)}"

definition staging_kept :: "env \<Rightarrow> host \<Rightarrow> host \<Rightarrow> bool" where
  "staging_kept e h h' =
     ((\<exists>cs. calls h' = calls h @ cs \<and> set cs \<subseteq> download_calls e \<and>
            (CreateDirectory (unzippedFolder e) \<in> set cs \<longrightarrow> files h (unzippedFolder e) = None)) \<and>
      (\<forall>old. files h (unzippedFolder e) = Some (Dir old) \<longrightarrow>
             (\<exists>new. files h' (unzippedFolder e) = Some (Dir new) \<and>
                    fst ` set old \<subseteq> fst ` set new)) \<and>
      (files h (unzippedFolder e) \<noteq> None \<longrightarrow> files h' (unzippedFolder e) \<noteq> None) \<and>
      (\<forall>p. p \<noteq> Path_join (temporary_directory e) ''scriptUpdate.zip'' \<and> p \<noteq> unzippedFolder e \<longrightarrow>
           files h' p = files h p))"

subsection \<open>Examples\<close>

text \<open>
  A host for the examples: local time is one hour ahead of UTC, the clock reads
  2023-11-15 10:20:00 local time, every request fails. \<open>example_store\<close> is a store
  holding one cache record for the script of \<open>example_env\<close>. \<open>error_page_env\<close> answers every
  request with status 404 and a body that is the JSON array \<^verbatim>\<open>[]\<close>; \<open>manifest_env\<close> answers
  with a manifest of two releases; \<open>archive_env\<close> answers with an archive of one file.
  \<open>example_host\<close> is a file system with the script and an update in the staging
  directory; in \<open>stale_host\<close> the staging directory holds a file of an earlier download,
  and in \<open>fresh_host\<close> there is no staging directory. \<open>berlin\<close> is the time zone of Berlin
  around the end of daylight saving time in 2023 (two hours ahead of UTC until
  2023-10-29 01:00 UTC, which is 03:00 on the local clock, then one hour ahead).
  \<open>huge_version\<close> is a version of one component, 2 followed by 308 zeros.
\<close>

definition release :: "string \<Rightarrow> VersionData" where
  "release s =
     \<lparr>version = s, date = ''2024-01-01'', notes' = ''fixes'',
      url = ''https://example.org/'' @ s @ ''.zip''\<rparr>"

definition example_env :: env where
  "example_env =
     \<lparr>script_name = ''demo'', script_directory = ''/scripts/demo'',
      temporary_directory = ''/tmp'', LocalTZA = (\<lambda>t isUTC. 3600000),
      now = 1700040000000, now_fetched = 1700040000250,
      fetch = (\<lambda>u. None), storage_set = True, fromArrayBuffer = Some,
      archive_entries = (\<lambda>content. None), fs_fault = (\<lambda>n. False)\<rparr>"


definition huge_version :: string where
  "huge_version =
     ''2'' @
     ''00000000000000000000000000000000000000000000000000000000000000000000000000000'' @
     ''00000000000000000000000000000000000000000000000000000000000000000000000000000'' @
     ''00000000000000000000000000000000000000000000000000000000000000000000000000000'' @
     ''00000000000000000000000000000000000000000000000000000000000000000000000000000''"

definition example_store :: "time \<Rightarrow> VersionData list \<Rightarrow> storage" where
  "example_store checked vs = [''scriptUpdater.demo'' \<mapsto> \<lparr>lastChecked = checked, versions = vs\<rparr>]"

definition error_page_env :: env where
  "error_page_env =
     example_env\<lparr>fetch := (\<lambda>u. Some (Response False 404 ''Not Found'' (Some []) []))\<rparr>"

definition manifest_env :: env where
  "manifest_env =
     example_env\<lparr>fetch := (\<lambda>u. Some (Response True 200 ''OK'' (Some [release ''3.0'', release ''0.9'']) []))\<rparr>"

definition example_host :: host where
  "example_host =
     \<lparr>files = [''/scripts/demo'' \<mapsto> Dir [(''index.tsx'', ''old'')],
               ''/tmp/scriptUpdate'' \<mapsto> Dir [(''index.tsx'', ''new'')]],
      calls = []\<rparr>"

definition archive_env :: env where
  "archive_env =
     example_env
       \<lparr>fetch := (\<lambda>u. Some (Response True 200 ''OK'' None ''PK-2.0'')),
        archive_entries :=
          (\<lambda>content. if content = ''PK-2.0'' then Some [(''index.tsx'', ''new'')] else None)\<rparr>"

definition fresh_host :: host where
  "fresh_host = \<lparr>files = [''/scripts/demo'' \<mapsto> Dir [(''index.tsx'', ''old'')]], calls = []\<rparr>"

definition stale_host :: host where
  "stale_host =
     \<lparr>files = [''/scripts/demo'' \<mapsto> Dir [(''index.tsx'', ''old'')],
               ''/tmp/scriptUpdate'' \<mapsto> Dir [(''stale.tsx'', ''earlier'')]],
      calls = []\<rparr>"

section \<open>The pattern and the grammar\<close>

text \<open>
  The words a regular expression stands for, to show that matching by derivatives
  decides them, and that the pattern of \<^verbatim>\<open>compareVersion\<close> stands for the versions of the
  grammar.
\<close>

definition conc :: "string set \<Rightarrow> string set \<Rightarrow> string set" where
  "conc A B = {u @ v | u v. u \<in> A \<and> v \<in> B}"

inductive_set star :: "string set \<Rightarrow> string set" for A :: "string set" where
  star_nil: "[] \<in> star A"
| star_app: "u \<in> A \<Longrightarrow> v \<in> star A \<Longrightarrow> u @ v \<in> star A"

fun lang :: "regex \<Rightarrow> string set" where
  "lang Fail = {}"
| "lang Eps = {[]}"
| "lang Digit = {[c] | c. is_digit c}"
| "lang (Chr d) = {[d]}"
| "lang (Seq r s) = conc (lang r) (lang s)"
| "lang (Alt r s) = lang r \<union> lang s"
| "lang (Star r) = star (lang r)"

lemma nil_in_conc: "[] \<in> conc A B \<longleftrightarrow> [] \<in> A \<and> [] \<in> B"
  by (auto simp: conc_def)

lemma cons_in_conc:
  "c # w \<in> conc A B \<longleftrightarrow>
     ([] \<in> A \<and> c # w \<in> B) \<or> (\<exists>u v. w = u @ v \<and> c # u \<in> A \<and> v \<in> B)"
proof
  assume "c # w \<in> conc A B"
  then obtain u v where uv: "c # w = u @ v" "u \<in> A" "v \<in> B"
    by (auto simp: conc_def)
  show "([] \<in> A \<and> c # w \<in> B) \<or> (\<exists>u v. w = u @ v \<and> c # u \<in> A \<and> v \<in> B)"
  proof (cases u)
    case Nil
    with uv show ?thesis by simp
  next
    case (Cons x u')
    with uv have "w = u' @ v" "c # u' \<in> A" by auto
    with uv show ?thesis by blast
  qed
next
  assume "([] \<in> A \<and> c # w \<in> B) \<or> (\<exists>u v. w = u @ v \<and> c # u \<in> A \<and> v \<in> B)"
  then show "c # w \<in> conc A B"
  proof
    assume "[] \<in> A \<and> c # w \<in> B"
    then have "[] @ (c # w) \<in> conc A B" unfolding conc_def by blast
    then show ?thesis by simp
  next
    assume "\<exists>u v. w = u @ v \<and> c # u \<in> A \<and> v \<in> B"
    then obtain u v where "w = u @ v" "c # u \<in> A" "v \<in> B" by blast
    then have "(c # u) @ v \<in> conc A B" unfolding conc_def by blast
    with \<open>w = u @ v\<close> show ?thesis by simp
  qed
qed

lemma star_cons_split:
  assumes "x \<in> star A" and "x = c # w"
  shows "\<exists>u v. w = u @ v \<and> c # u \<in> A \<and> v \<in> star A"
  using assms
proof (induction rule: star.induct)
  case star_nil
  then show ?case by simp
next
  case (star_app u v)
  show ?case
  proof (cases u)
    case Nil
    with star_app show ?thesis by simp
  next
    case (Cons y u')
    with star_app.prems have "y = c" "w = u' @ v" by auto
    with Cons star_app.hyps show ?thesis by blast
  qed
qed

lemma cons_in_star:
  "c # w \<in> star A \<longleftrightarrow> (\<exists>u v. w = u @ v \<and> c # u \<in> A \<and> v \<in> star A)"
proof
  assume "c # w \<in> star A"
  then show "\<exists>u v. w = u @ v \<and> c # u \<in> A \<and> v \<in> star A"
    by (rule star_cons_split) simp
next
  assume "\<exists>u v. w = u @ v \<and> c # u \<in> A \<and> v \<in> star A"
  then obtain u v where "w = u @ v" "c # u \<in> A" "v \<in> star A" by blast
  then have "(c # u) @ v \<in> star A" by (blast intro: star_app)
  with \<open>w = u @ v\<close> show "c # w \<in> star A" by simp
qed

lemma nullable_lang: "nullable r \<longleftrightarrow> [] \<in> lang r"
  by (induction r) (auto simp: nil_in_conc star_nil)

lemma deriv_lang: "w \<in> lang (deriv c r) \<longleftrightarrow> c # w \<in> lang r"
proof (induction r arbitrary: w)
  case (Seq r s)
  have here: "\<And>A B. (w \<in> conc A B) = (\<exists>u v. w = u @ v \<and> u \<in> A \<and> v \<in> B)"
    by (auto simp: conc_def)
  show ?case
    by (auto simp add: cons_in_conc nullable_lang here Seq)
next
  case (Star r)
  have here: "\<And>A B. (w \<in> conc A B) = (\<exists>u v. w = u @ v \<and> u \<in> A \<and> v \<in> B)"
    by (auto simp: conc_def)
  show ?case
    by (simp add: cons_in_star here Star)
qed auto

lemma regex_test_lang: "regex_test r s \<longleftrightarrow> s \<in> lang r"
  by (induction s arbitrary: r) (simp_all add: nullable_lang deriv_lang)

lemma split_not_Nil: "split sep s \<noteq> []"
  by (induction s) (auto split: list.splits)

lemma split_no_sep: "sep \<notin> set s \<Longrightarrow> split sep s = [s]"
  by (induction s) auto

lemma split_append_sep: "sep \<notin> set p \<Longrightarrow> split sep (p @ sep # rest) = p # split sep rest"
  by (induction p) auto

lemma split_cases:
  "split sep s = p # ps \<Longrightarrow>
     sep \<notin> set p \<and>
     ((ps = [] \<and> s = p) \<or> (ps \<noteq> [] \<and> (\<exists>rest. s = p @ sep # rest \<and> split sep rest = ps)))"
proof (induction s arbitrary: p ps)
  case Nil
  then show ?case by simp
next
  case (Cons c s)
  show ?case
  proof (cases "c = sep")
    case True
    with Cons.prems have "p = []" "split sep s = ps" by auto
    with True show ?thesis using split_not_Nil [of sep s] by auto
  next
    case False
    obtain q qs where q: "split sep s = q # qs"
      using split_not_Nil [of sep s] by (cases "split sep s") auto
    with False Cons.prems have p: "p = c # q" "ps = qs" by auto
    from Cons.IH [OF q] False p show ?thesis by auto
  qed
qed

lemma is_digit_not_dot: "is_digit c \<Longrightarrow> c \<noteq> CHR ''.''"
  by (auto simp: is_digit_def)

lemma digits_no_dot: "list_all is_digit p \<Longrightarrow> CHR ''.'' \<notin> set p"
  by (auto simp: list_all_iff dest: is_digit_not_dot)

lemma star_Digit: "s \<in> star {[c] | c. is_digit c} \<longleftrightarrow> list_all is_digit s"
proof
  assume "s \<in> star {[c] | c. is_digit c}"
  then show "list_all is_digit s"
    by (induction rule: star.induct) auto
next
  assume "list_all is_digit s"
  then show "s \<in> star {[c] | c. is_digit c}"
  proof (induction s)
    case Nil
    show ?case by (rule star_nil)
  next
    case (Cons c s)
    then have "[c] \<in> {[c] | c. is_digit c}" "s \<in> star {[c] | c. is_digit c}" by auto
    then have "[c] @ s \<in> star {[c] | c. is_digit c}" by (rule star_app)
    then show ?case by simp
  qed
qed

lemma lang_digits: "s \<in> lang (one_or_more Digit) \<longleftrightarrow> digits s"
  by (cases s) (auto simp: one_or_more_def digits_def cons_in_conc nil_in_conc star_Digit)

lemma lang_group:
  "t \<in> lang (Seq (Chr (CHR ''.'')) (one_or_more Digit)) \<longleftrightarrow> (\<exists>d. t = CHR ''.'' # d \<and> digits d)"
  by (cases t) (auto simp: cons_in_conc nil_in_conc lang_digits)

lemma in_conc: "w \<in> conc A B \<longleftrightarrow> (\<exists>u v. w = u @ v \<and> u \<in> A \<and> v \<in> B)"
  by (auto simp: conc_def)

lemma lang_version_parts:
  "s \<in> conc (lang (one_or_more Digit))
            (lang (at_most n (Seq (Chr (CHR ''.'')) (one_or_more Digit)))) \<longleftrightarrow>
   length (split (CHR ''.'') s) \<le> Suc n \<and> list_all digits (split (CHR ''.'') s)"
  (is "s \<in> conc ?D (lang (at_most n ?g)) \<longleftrightarrow> ?R n s")
proof (induction n arbitrary: s)
  case 0
  show ?case
  proof
    assume "s \<in> conc ?D (lang (at_most 0 ?g))"
    then have d: "digits s" by (auto simp: in_conc lang_digits)
    then have "split (CHR ''.'') s = [s]"
      by (simp add: digits_def digits_no_dot split_no_sep)
    with d show "?R 0 s" by simp
  next
    assume r: "?R 0 s"
    obtain p ps where p: "split (CHR ''.'') s = p # ps"
      using split_not_Nil [of "CHR ''.''" s] by (cases "split (CHR ''.'') s") auto
    with r have "ps = []" "digits p" by auto
    with split_cases [OF p] have "digits s" by auto
    then show "s \<in> conc ?D (lang (at_most 0 ?g))" by (simp add: in_conc lang_digits)
  qed
next
  case (Suc n)
  show ?case
  proof
    assume "s \<in> conc ?D (lang (at_most (Suc n) ?g))"
    then obtain d t where dt: "s = d @ t" "digits d"
      and t: "t = [] \<or> t \<in> conc (lang ?g) (lang (at_most n ?g))"
      by (auto simp: in_conc [of s] lang_digits)
    from dt have nodot: "CHR ''.'' \<notin> set d"
      by (simp add: digits_def digits_no_dot)
    from t show "?R (Suc n) s"
    proof
      assume "t = []"
      with dt nodot show ?thesis by (simp add: split_no_sep)
    next
      assume "t \<in> conc (lang ?g) (lang (at_most n ?g))"
      then obtain d' x where x: "t = (CHR ''.'' # d') @ x" "digits d'" "x \<in> lang (at_most n ?g)"
        unfolding in_conc [of t] lang_group by blast
      then have "d' @ x \<in> conc ?D (lang (at_most n ?g))"
        unfolding in_conc [of "d' @ x"] lang_digits by blast
      then have "?R n (d' @ x)" by (simp only: Suc.IH)
      moreover have "split (CHR ''.'') s = d # split (CHR ''.'') (d' @ x)"
        using dt x nodot by (simp add: split_append_sep)
      ultimately show ?thesis using dt by simp
    qed
  next
    assume r: "?R (Suc n) s"
    obtain p ps where p: "split (CHR ''.'') s = p # ps"
      using split_not_Nil [of "CHR ''.''" s] by (cases "split (CHR ''.'') s") auto
    with r have dp: "digits p" and ps: "length ps \<le> Suc n" "list_all digits ps" by auto
    from split_cases [OF p]
    consider "ps = []" "s = p"
      | rest where "ps \<noteq> []" "s = p @ CHR ''.'' # rest" "split (CHR ''.'') rest = ps"
      by blast
    then show "s \<in> conc ?D (lang (at_most (Suc n) ?g))"
    proof cases
      case 1
      with dp have "s @ [] \<in> conc ?D (lang (at_most (Suc n) ?g))"
        unfolding in_conc [of "s @ []"] lang_digits by (intro exI [of _ s] exI [of _ "[]"]) simp
      then show ?thesis by simp
    next
      case 2
      with ps have "?R n rest" by simp
      then have "rest \<in> conc ?D (lang (at_most n ?g))" by (simp only: Suc.IH)
      then obtain d' x where x: "rest = d' @ x" "digits d'" "x \<in> lang (at_most n ?g)"
        unfolding in_conc [of rest] lang_digits by blast
      then have "(CHR ''.'' # d') @ x \<in> conc (lang ?g) (lang (at_most n ?g))"
        unfolding in_conc [of "(CHR ''.'' # d') @ x"] lang_group by blast
      then have "CHR ''.'' # rest \<in> lang (at_most (Suc n) ?g)"
        using x by simp
      with dp have "p @ (CHR ''.'' # rest) \<in> conc ?D (lang (at_most (Suc n) ?g))"
        unfolding in_conc [of "p @ (CHR ''.'' # rest)"] lang_digits by blast
      with 2 show ?thesis by simp
    qed
  qed
qed

lemma regex_test_valid_version: "regex_test version_regex s \<longleftrightarrow> valid_version s"
proof -
  have "regex_test version_regex s \<longleftrightarrow>
        s \<in> conc (lang (one_or_more Digit))
                 (lang (at_most 3 (Seq (Chr (CHR ''.'')) (one_or_more Digit))))"
    by (simp add: regex_test_lang version_regex_def)
  also have "\<dots> \<longleftrightarrow> length (split (CHR ''.'') s) \<le> 4 \<and> list_all digits (split (CHR ''.'') s)"
    by (simp only: lang_version_parts) simp
  also have "\<dots> \<longleftrightarrow> valid_version s"
    using split_not_Nil [of "CHR ''.''" s]
    by (cases "split (CHR ''.'') s") (auto simp: valid_version_def Let_def)
  finally show ?thesis .
qed

section \<open>\<^verbatim>\<open>compareVersion\<close> and the comparison of the specification\<close>

subsection \<open>Rounding\<close>

lemma exponent_small: "n < 9007199254740992 \<Longrightarrow> exponent n = 0"
  by (simp add: exponent.simps)

lemma exponent_quotient_pos: "0 < n \<Longrightarrow> 0 < n div 2 ^ exponent n"
proof (induction n rule: exponent.induct)
  case (1 n)
  show ?case
  proof (cases "n < 9007199254740992")
    case True
    with "1.prems" show ?thesis by (simp add: exponent_small)
  next
    case False
    then have "0 < n div 2" by simp
    with "1.IH" False have "0 < n div 2 div 2 ^ exponent (n div 2)" by simp
    moreover have "exponent n = Suc (exponent (n div 2))"
      using False by (subst exponent.simps) simp
    ultimately show ?thesis
      by (simp add: zdiv_zmult2_eq)
  qed
qed

lemma round_half_even_small:
  "0 \<le> n \<Longrightarrow> n < 9007199254740992 \<Longrightarrow> round_half_even n = n"
  by (simp add: round_half_even_def exponent_small)

lemma round_half_even_lower: "0 \<le> n \<Longrightarrow> n div 2 ^ exponent n * 2 ^ exponent n \<le> round_half_even n"
  by (simp add: round_half_even_def Let_def mult_right_mono)

lemma round_half_even_pos: "0 < n \<Longrightarrow> 0 < round_half_even n"
proof -
  assume n: "0 < n"
  have "0 < n div 2 ^ exponent n * 2 ^ exponent n"
    using exponent_quotient_pos [OF n] by simp
  with round_half_even_lower [of n] n show ?thesis by simp
qed

lemma round_half_even_overflow:
  assumes "2 ^ 1024 \<le> n"
  shows "(2::int) ^ 1024 \<le> round_half_even n"
proof -
  let ?e = "exponent n"
  have n: "0 < n" using assms by (rule less_le_trans [rotated]) simp
  have "(2::int) ^ 1024 \<le> n div 2 ^ ?e * 2 ^ ?e"
  proof (cases "?e \<le> 1024")
    case True
    then have p: "(2::int) ^ 1024 = 2 ^ (1024 - ?e) * 2 ^ ?e"
      by (simp add: power_add [symmetric])
    have "(2::int) ^ (1024 - ?e) = (2 ^ (1024 - ?e) * 2 ^ ?e) div 2 ^ ?e" by simp
    also have "\<dots> \<le> n div 2 ^ ?e"
      using assms unfolding p [symmetric] by (intro zdiv_mono1) simp_all
    finally show ?thesis
      unfolding p by (intro mult_right_mono) simp_all
  next
    case False
    then have "(2::int) ^ 1024 \<le> 2 ^ ?e" by (intro power_increasing) simp_all
    also have "\<dots> \<le> n div 2 ^ ?e * 2 ^ ?e"
      using exponent_quotient_pos [OF n] by simp
    finally show ?thesis .
  qed
  with round_half_even_lower [of n] n show ?thesis by simp
qed

lemma to_number_exact: "\<bar>d\<bar> < 9007199254740992 \<Longrightarrow> to_number d = Num d"
proof -
  assume d: "\<bar>d\<bar> < 9007199254740992"
  then have "round_half_even \<bar>d\<bar> = \<bar>d\<bar>" by (intro round_half_even_small) simp_all
  moreover have "\<bar>d\<bar> < 2 ^ 1024" using d by (rule less_trans) simp
  ultimately show ?thesis by (auto simp: to_number_def Let_def)
qed

lemma to_number_overflow: "2 ^ 1024 \<le> n \<Longrightarrow> to_number n = Infinity"
proof -
  assume a: "2 ^ 1024 \<le> n"
  then have "0 \<le> n" by (rule order_trans [rotated]) simp
  with round_half_even_overflow [OF a] show ?thesis by (simp add: to_number_def)
qed

lemma to_number_minus: "to_number (- d) = negate (to_number d)"
proof -
  have "round_half_even 0 = 0" by (simp add: round_half_even_small)
  then show ?thesis by (cases "d = 0") (auto simp: to_number_def Let_def)
qed

lemma to_number_cases:
  "to_number d = Infinity \<or> to_number d = NegInfinity \<or> (\<exists>m. to_number d = Num m)"
  by (simp add: to_number_def Let_def)

lemma to_number_zero: "to_number d = Num 0 \<longleftrightarrow> d = 0"
proof
  assume z: "to_number d = Num 0"
  show "d = 0"
  proof (rule ccontr)
    assume "d \<noteq> 0"
    then have "0 < round_half_even \<bar>d\<bar>" by (intro round_half_even_pos) simp
    with z show False by (auto simp: to_number_def Let_def split: if_splits)
  qed
next
  assume "d = 0"
  then show "to_number d = Num 0" by (simp add: to_number_exact)
qed

lemma to_number_nonneg: "0 \<le> d \<Longrightarrow> to_number d = Infinity \<or> (\<exists>m. to_number d = Num m)"
  by (simp add: to_number_def Let_def)

subsection \<open>The parts of a version\<close>

lemma foldl_decimal: "foldl (\<lambda>n c. 10 * n + digit_value c) 0 s = decimal s"
  by (induction s rule: rev_induct) (simp_all add: decimal_def)

lemma decimal_rev_nonneg: "list_all is_digit cs \<Longrightarrow> 0 \<le> decimal_rev cs"
  by (induction cs) (auto simp: is_digit_def digit_value_def)

lemma decimal_nonneg: "digits p \<Longrightarrow> 0 \<le> decimal p"
  by (simp add: digits_def decimal_def decimal_rev_nonneg list_all_iff)

lemma parseInt_digits: "digits p \<Longrightarrow> parseInt p = to_number (decimal p)"
proof -
  assume d: "digits p"
  then have "takeWhile is_digit p = p"
    by (simp add: digits_def list_all_iff)
  moreover from d obtain c cs where "p = c # cs"
    by (cases p) (auto simp: digits_def)
  ultimately show ?thesis
    using foldl_decimal [of p] by (simp add: parseInt_def)
qed

lemma parseInt_safe:
  "digits p \<Longrightarrow> decimal p \<le> 9007199254740991 \<Longrightarrow> parseInt p = Num (decimal p)"
  using decimal_nonneg [of p] by (simp add: parseInt_digits to_number_exact)

lemma parts_safe:
  "valid_version s \<Longrightarrow> safe_version s \<Longrightarrow>
     map parseInt (split (CHR ''.'') s) = map Num (components s)"
  by (simp add: valid_version_def safe_version_def Let_def components_def list_all_iff
      parseInt_safe)

lemma components_nonneg: "valid_version s \<Longrightarrow> list_all (\<lambda>c. 0 \<le> c) (components s)"
  by (simp add: valid_version_def Let_def components_def list_all_iff decimal_nonneg)

lemma parts_finite:
  assumes "valid_version s" and "finite_version s"
  shows "\<exists>xs. map parseInt (split (CHR ''.'') s) = map Num xs"
proof -
  have "\<exists>m. parseInt p = Num m" if "p \<in> set (split (CHR ''.'') s)" for p
  proof -
    from that assms have d: "digits p" and f: "parseInt p \<noteq> Infinity"
      by (simp_all add: valid_version_def finite_version_def Let_def list_all_iff)
    from to_number_nonneg [OF decimal_nonneg [OF d]] f show ?thesis
      by (simp add: parseInt_digits [OF d])
  qed
  then have "\<forall>p \<in> set (split (CHR ''.'') s). \<exists>m. parseInt p = Num m" by blast
  then obtain f where "\<forall>p \<in> set (split (CHR ''.'') s). parseInt p = Num (f p)"
    by metis
  then have "map parseInt (split (CHR ''.'') s) = map Num (map f (split (CHR ''.'') s))"
    by simp
  then show ?thesis by blast
qed

lemma safe_finite: "valid_version s \<Longrightarrow> safe_version s \<Longrightarrow> finite_version s"
  by (simp add: valid_version_def safe_version_def finite_version_def Let_def components_def
      list_all_iff parseInt_safe)

subsection \<open>The loop\<close>

lemma compare_loop_step:
  "i < length xs \<Longrightarrow> i < length ys \<Longrightarrow>
     compare_loop (map Num xs) (map Num ys) i =
       (if xs ! i = ys ! i then compare_loop (map Num xs) (map Num ys) (Suc i)
        else to_number (xs ! i - ys ! i))"
  by (subst compare_loop.simps) (simp add: at_def Let_def to_number_zero)

lemma compare_loop_end: "length xs \<le> i \<Longrightarrow> compare_loop (map Num xs) bParts i = Num 0"
  by (subst compare_loop.simps) simp

lemma compare_loop_exact:
  "length xs = length ys \<Longrightarrow>
   list_all (\<lambda>c. 0 \<le> c \<and> c \<le> 9007199254740991) xs \<Longrightarrow>
   list_all (\<lambda>c. 0 \<le> c \<and> c \<le> 9007199254740991) ys \<Longrightarrow>
     compare_loop (map Num xs) (map Num ys) i = Num (first_difference (drop i xs) (drop i ys))"
proof (induction "length xs - i" arbitrary: i)
  case 0
  then show ?case by (simp add: compare_loop_end)
next
  case (Suc k)
  then have i: "i < length xs" "i < length ys" by auto
  then have dx: "drop i xs = xs ! i # drop (Suc i) xs" and dy: "drop i ys = ys ! i # drop (Suc i) ys"
    by (simp_all add: Cons_nth_drop_Suc)
  from i Suc.prems have "0 \<le> xs ! i" "xs ! i \<le> 9007199254740991"
    "0 \<le> ys ! i" "ys ! i \<le> 9007199254740991"
    by (simp_all add: list_all_length)
  then have "\<bar>xs ! i - ys ! i\<bar> < 9007199254740992" by linarith
  then have e: "to_number (xs ! i - ys ! i) = Num (xs ! i - ys ! i)"
    by (rule to_number_exact)
  from Suc have "k = length xs - Suc i" by simp
  from Suc.hyps(1) [OF this Suc.prems] i e show ?case
    by (simp add: compare_loop_step dx dy)
qed

lemma compare_loop_swap:
  "length xs = length ys \<Longrightarrow>
     compare_loop (map Num ys) (map Num xs) i = negate (compare_loop (map Num xs) (map Num ys) i) \<and>
     compare_loop (map Num xs) (map Num ys) i \<noteq> NaN"
proof (induction "length xs - i" arbitrary: i)
  case 0
  then show ?case by (simp add: compare_loop_end)
next
  case (Suc k)
  then have i: "i < length xs" "i < length ys" by auto
  from Suc have "k = length xs - Suc i" by simp
  note ih = Suc.hyps(1) [OF this Suc.prems]
  have "to_number (ys ! i - xs ! i) = negate (to_number (xs ! i - ys ! i))"
    using to_number_minus [of "xs ! i - ys ! i"] by simp
  moreover have "to_number (xs ! i - ys ! i) \<noteq> NaN"
    using to_number_cases [of "xs ! i - ys ! i"] by auto
  ultimately show ?case
    using ih i by (simp add: compare_loop_step)
qed

lemma compare_loop_same: "compare_loop (map Num xs) (map Num xs) i = Num 0"
proof (induction "length xs - i" arbitrary: i)
  case 0
  then show ?case by (simp add: compare_loop_end)
next
  case (Suc k)
  then have i: "i < length xs" by auto
  from Suc have "k = length xs - Suc i" by simp
  from Suc.hyps(1) [OF this] i show ?case
    by (simp add: compare_loop_step)
qed

subsection \<open>\<^verbatim>\<open>compareVersion\<close>\<close>

lemma compareVersion_parts:
  assumes "valid_version a" and "valid_version b"
    and "map parseInt (split (CHR ''.'') a) = map Num xs"
    and "map parseInt (split (CHR ''.'') b) = map Num ys"
  shows "compareVersion a b =
           Inr (compare_loop (map Num (pad_zeros (max (length xs) (length ys)) xs))
                             (map Num (pad_zeros (max (length xs) (length ys)) ys)) 0)"
proof -
  have ra: "regex_test version_regex a" and rb: "regex_test version_regex b"
    using assms by (simp_all add: regex_test_valid_version)
  let ?n = "max (length xs) (length ys)"
  have pa: "(if length (map Num xs) < length (map Num ys)
             then map Num xs @ replicate (length (map Num ys) - length (map Num xs)) (Num 0)
             else map Num xs) = map Num (pad_zeros ?n xs)"
    by (auto simp: pad_zeros_def max_def)
  have pb: "(if length (map Num ys) < length (map Num (pad_zeros ?n xs))
             then map Num ys @ replicate (length (map Num (pad_zeros ?n xs)) - length (map Num ys)) (Num 0)
             else map Num ys) = map Num (pad_zeros ?n ys)"
    by (auto simp: pad_zeros_def max_def)
  show ?thesis
    unfolding compareVersion_def Let_def assms(3,4) pa pb
    using ra rb by simp
qed

lemma length_pad_zeros: "length (pad_zeros (max (length xs) (length ys)) xs) = max (length xs) (length ys)"
  "length (pad_zeros (max (length xs) (length ys)) ys) = max (length xs) (length ys)"
  by (auto simp: pad_zeros_def max_def)

lemma compareVersion_safe:
  assumes "valid_version a" and "valid_version b" and "safe_version a" and "safe_version b"
  shows "compareVersion a b = Inr (Num (spec_compare a b))"
proof -
  let ?xs = "components a" and ?ys = "components b"
  let ?n = "max (length ?xs) (length ?ys)"
  have small: "list_all (\<lambda>c. 0 \<le> c \<and> c \<le> 9007199254740991) (pad_zeros ?n ?xs)"
    "list_all (\<lambda>c. 0 \<le> c \<and> c \<le> 9007199254740991) (pad_zeros ?n ?ys)"
    using assms components_nonneg [of a] components_nonneg [of b]
    by (auto simp: pad_zeros_def safe_version_def list_all_iff)
  have len: "length (pad_zeros ?n ?xs) = length (pad_zeros ?n ?ys)"
    by (simp add: length_pad_zeros)
  show ?thesis
    using compareVersion_parts [OF assms(1,2) parts_safe [OF assms(1,3)] parts_safe [OF assms(2,4)]]
      compare_loop_exact [OF len small, of 0]
    by (simp add: spec_compare_def Let_def)
qed

lemma compareVersion_returns:
  "valid_version a \<Longrightarrow> valid_version b \<Longrightarrow> \<exists>r. compareVersion a b = Inr r"
  by (simp add: compareVersion_def Let_def regex_test_valid_version)

lemma compareVersion_invalid_a:
  \<open>\<not> valid_version a \<Longrightarrow>
     compareVersion a b = Inl (Error (''Parameter "a" is not a version: "'' @ a @ ''"''))\<close>
  by (simp add: compareVersion_def regex_test_valid_version)

lemma compareVersion_invalid_b:
  \<open>valid_version a \<Longrightarrow> \<not> valid_version b \<Longrightarrow>
     compareVersion a b = Inl (Error (''Parameter "b" is not a version: "'' @ b @ ''"''))\<close>
  by (simp add: compareVersion_def regex_test_valid_version)

lemma compareVersion_swap:
  assumes "valid_version a" and "valid_version b" and "finite_version a" and "finite_version b"
  shows "\<exists>r. compareVersion a b = Inr r \<and> compareVersion b a = Inr (negate r) \<and> r \<noteq> NaN"
proof -
  from parts_finite [OF assms(1,3)] obtain xs where
    xs: "map parseInt (split (CHR ''.'') a) = map Num xs" by blast
  from parts_finite [OF assms(2,4)] obtain ys where
    ys: "map parseInt (split (CHR ''.'') b) = map Num ys" by blast
  let ?n = "max (length xs) (length ys)"
  have len: "length (pad_zeros ?n xs) = length (pad_zeros ?n ys)"
    by (simp add: length_pad_zeros)
  from compareVersion_parts [OF assms(1,2) xs ys] compareVersion_parts [OF assms(2,1) ys xs]
    compare_loop_swap [OF len, of 0]
  show ?thesis by (simp add: max.commute)
qed

lemma compareVersion_same:
  assumes "valid_version a" and "finite_version a"
  shows "compareVersion a a = Inr (Num 0)"
proof -
  from parts_finite [OF assms] obtain xs where
    xs: "map parseInt (split (CHR ''.'') a) = map Num xs" by blast
  from compareVersion_parts [OF assms(1) assms(1) xs xs] show ?thesis
    by (simp add: compare_loop_same)
qed

lemma parseInt_huge: "valid_version huge_version \<and> parseInt huge_version = Infinity"
proof -
  have d: "digits huge_version"
    by (simp add: huge_version_def digits_def is_digit_def)
  then have "CHR ''.'' \<notin> set huge_version"
    by (simp add: digits_def digits_no_dot)
  then have "split (CHR ''.'') huge_version = [huge_version]"
    by (rule split_no_sep)
  with d have v: "valid_version huge_version"
    by (simp add: valid_version_def)
  have "2 ^ 1024 \<le> decimal huge_version"
    by (simp add: huge_version_def decimal_def digit_value_def)
  then have "to_number (decimal huge_version) = Infinity"
    by (rule to_number_overflow)
  with d v show ?thesis by (simp add: parseInt_digits)
qed

lemma compareVersion_huge: "compareVersion huge_version huge_version = Inr NaN"
proof -
  have v: "valid_version huge_version" and p: "parseInt huge_version = Infinity"
    using parseInt_huge by simp_all
  have "CHR ''.'' \<notin> set huge_version"
    by (simp add: huge_version_def)
  then have s: "split (CHR ''.'') huge_version = [huge_version]"
    by (rule split_no_sep)
  show ?thesis
    using v by (simp add: compareVersion_def regex_test_valid_version s p Let_def
        compare_loop.simps at_def)
qed

text \<open>The equations that evaluate the definitions on a given string.\<close>

lemmas version_eval =
  valid_version_def safe_version_def digits_def is_digit_def spec_compare_def components_def
  decimal_def digit_value_def pad_zeros_def

lemmas compareVersion_eval =
  compareVersion_def version_regex_def one_or_more_def is_digit_def parseInt_digits digits_def
  decimal_def digit_value_def compare_loop.simps at_def numeral_3_eq_3 to_number_def
  round_half_even_def exponent.simps Let_def

text \<open>
  Claim C5, as the code has it. For valid versions \<open>a\<close> and \<open>b\<close> whose components are safe
  integers, \<^verbatim>\<open>compareVersion(a, b)\<close> returns what the specification describes: the shorter
  list of components is padded with zeros to the length of the longer, the components are
  compared as numbers from the left, and the result is the first difference that is not
  zero, or zero when all components are equal. So \<^verbatim>\<open>compareVersion("1.2", "1.2.0.0")\<close> is
  0, and \<^verbatim>\<open>compareVersion("1.9", "1.10")\<close> is negative: the components are compared as
  numbers, not as strings.
\<close>

theorem compareVersion_pads_and_compares:
  assumes "valid_version a" and "valid_version b" and "safe_version a" and "safe_version b"
  shows "compareVersion a b = Inr (Num (spec_compare a b)) \<and>
         compareVersion ''1.2'' ''1.2.0.0'' = Inr (Num 0) \<and>
         compareVersion ''1.9'' ''1.10'' = Inr (Num (- 1))"
proof (intro conjI)
  show "compareVersion a b = Inr (Num (spec_compare a b))"
    using assms by (rule compareVersion_safe)
  show "compareVersion ''1.2'' ''1.2.0.0'' = Inr (Num 0)"
    by (simp add: compareVersion_eval)
  show "compareVersion ''1.9'' ''1.10'' = Inr (Num (- 1))"
    by (simp add: compareVersion_eval)
qed

theorem compareVersion_pads_and_compares_witness:
  "valid_version ''2.0.1'' \<and> valid_version ''2.0'' \<and>
   safe_version ''2.0.1'' \<and> safe_version ''2.0'' \<and>
   compareVersion ''2.0.1'' ''2.0'' = Inr (Num 1)"
proof -
  have a: "valid_version ''2.0.1''" and b: "valid_version ''2.0''"
    and c: "safe_version ''2.0.1''" and d: "safe_version ''2.0''"
    by (simp_all add: version_eval)
  have "spec_compare ''2.0.1'' ''2.0'' = 1"
    by (simp add: version_eval)
  with compareVersion_pads_and_compares [OF a b c d] a b c d show ?thesis by simp
qed

text \<open>
  Claim C5 as stated fails on components that are no safe integers: \<^verbatim>\<open>parseInt\<close> reads
  9007199254740993, which is \<open>2 ^ 53 + 1\<close>, as the double 9007199254740992, so the two
  versions below compare equal though their components differ by one.
\<close>

theorem compareVersion_rounds_components:
  "valid_version ''9007199254740993'' \<and> valid_version ''9007199254740992'' \<and>
   spec_compare ''9007199254740993'' ''9007199254740992'' = 1 \<and>
   compareVersion ''9007199254740993'' ''9007199254740992'' = Inr (Num 0)"
proof (intro conjI)
  show "valid_version ''9007199254740993''" "valid_version ''9007199254740992''"
    by (simp_all add: version_eval)
  show "spec_compare ''9007199254740993'' ''9007199254740992'' = 1"
    by (simp add: version_eval)
  show "compareVersion ''9007199254740993'' ''9007199254740992'' = Inr (Num 0)"
    by (simp add: compareVersion_eval)
qed

text \<open>
  Claim C8. A string outside the grammar (one to four components separated by dots,
  each a non-empty string of digits) makes \<^verbatim>\<open>compareVersion\<close> throw an error whose message
  names the parameter, \<open>a\<close> before \<open>b\<close>, and quotes the string; a string with a
  pre-release suffix such as \<^verbatim>\<open>1.2-beta\<close> is outside the grammar. On two strings of the
  grammar \<^verbatim>\<open>compareVersion\<close> does not throw: it returns a number, and an integer when the
  components are safe integers.
\<close>

theorem compareVersion_validates:
  \<open>(\<not> valid_version a \<longrightarrow>
      compareVersion a b = Inl (Error (''Parameter "a" is not a version: "'' @ a @ ''"''))) \<and>
   (valid_version a \<and> \<not> valid_version b \<longrightarrow>
      compareVersion a b = Inl (Error (''Parameter "b" is not a version: "'' @ b @ ''"''))) \<and>
   (valid_version a \<and> valid_version b \<longrightarrow> (\<exists>r. compareVersion a b = Inr r)) \<and>
   (valid_version a \<and> valid_version b \<and> safe_version a \<and> safe_version b \<longrightarrow>
      (\<exists>n. compareVersion a b = Inr (Num n))) \<and>
   \<not> valid_version ''1.2-beta''\<close>
proof (intro conjI impI)
  assume "\<not> valid_version a"
  then show \<open>compareVersion a b = Inl (Error (''Parameter "a" is not a version: "'' @ a @ ''"''))\<close>
    by (rule compareVersion_invalid_a)
next
  assume "valid_version a \<and> \<not> valid_version b"
  then show \<open>compareVersion a b = Inl (Error (''Parameter "b" is not a version: "'' @ b @ ''"''))\<close>
    by (simp add: compareVersion_invalid_b)
next
  assume "valid_version a \<and> valid_version b"
  then show "\<exists>r. compareVersion a b = Inr r"
    by (simp add: compareVersion_returns)
next
  assume "valid_version a \<and> valid_version b \<and> safe_version a \<and> safe_version b"
  then show "\<exists>n. compareVersion a b = Inr (Num n)"
    by (simp add: compareVersion_safe)
next
  show "\<not> valid_version ''1.2-beta''"
    by (simp add: version_eval)
qed

theorem compareVersion_validates_witness:
  \<open>\<not> valid_version ''1.2-beta'' \<and>
   compareVersion ''1.2-beta'' ''1.0'' =
     Inl (Error ''Parameter "a" is not a version: "1.2-beta"'') \<and>
   valid_version ''1.0'' \<and> \<not> valid_version ''1..2'' \<and>
   compareVersion ''1.0'' ''1..2'' = Inl (Error ''Parameter "b" is not a version: "1..2"'') \<and>
   valid_version ''1.2.3.4'' \<and> safe_version ''1.0'' \<and> safe_version ''1.2.3.4'' \<and>
   (\<exists>n. compareVersion ''1.0'' ''1.2.3.4'' = Inr (Num n)) \<and>
   valid_version huge_version \<and> (\<exists>r. compareVersion huge_version ''1.0'' = Inr r)\<close>
proof -
  have v: "\<not> valid_version ''1.2-beta''" "valid_version ''1.0''" "\<not> valid_version ''1..2''"
    "valid_version ''1.2.3.4''" "safe_version ''1.0''" "safe_version ''1.2.3.4''"
    by (simp_all add: version_eval)
  have h: "valid_version huge_version"
    using parseInt_huge by simp
  show ?thesis
    using v h compareVersion_validates [of "''1.2-beta''" "''1.0''"]
      compareVersion_validates [of "''1.0''" "''1..2''"]
      compareVersion_validates [of "''1.0''" "''1.2.3.4''"]
      compareVersion_validates [of huge_version "''1.0''"]
    by simp
qed

text \<open>
  Claim C9, as the code has it. For valid versions \<open>a\<close> and \<open>b\<close> (of up to four components)
  whose components are finite as numbers, \<^verbatim>\<open>compareVersion(a, b)\<close> is the negation of
  \<^verbatim>\<open>compareVersion(b, a)\<close> and is not \<^verbatim>\<open>NaN\<close>, so that the two are equal by \<^verbatim>\<open>==\<close>, and
  \<^verbatim>\<open>compareVersion(a, a)\<close> is 0. Versions whose components are safe integers are among
  them.
\<close>

theorem compareVersion_antisymmetric:
  assumes "valid_version a" and "valid_version b" and "finite_version a" and "finite_version b"
  shows "(\<exists>r. compareVersion a b = Inr r \<and> compareVersion b a = Inr (negate r) \<and> r \<noteq> NaN) \<and>
         compareVersion a a = Inr (Num 0) \<and>
         (\<forall>s. valid_version s \<and> safe_version s \<longrightarrow> finite_version s)"
  using assms by (simp add: compareVersion_swap compareVersion_same safe_finite)

theorem compareVersion_antisymmetric_witness:
  "valid_version ''1.9'' \<and> valid_version ''1.10.0'' \<and>
   finite_version ''1.9'' \<and> finite_version ''1.10.0'' \<and>
   compareVersion ''1.9'' ''1.10.0'' = Inr (Num (- 1)) \<and>
   compareVersion ''1.10.0'' ''1.9'' = Inr (Num 1) \<and>
   compareVersion ''1.9'' ''1.9'' = Inr (Num 0)"
proof -
  have a: "valid_version ''1.9''" and b: "valid_version ''1.10.0''"
    and sa: "safe_version ''1.9''" and sb: "safe_version ''1.10.0''"
    by (simp_all add: version_eval)
  have fa: "finite_version ''1.9''"
    using a sa by (rule safe_finite)
  have fb: "finite_version ''1.10.0''"
    using b sb by (rule safe_finite)
  have c: "compareVersion ''1.9'' ''1.10.0'' = Inr (Num (- 1))"
    by (simp add: compareVersion_eval)
  from compareVersion_antisymmetric [OF a b fa fb] a b fa fb c show ?thesis by auto
qed

text \<open>
  Claim C9 as stated fails on a component that is not finite as a number: \<^verbatim>\<open>parseInt\<close>
  reads \<open>huge_version\<close> as \<^verbatim>\<open>Infinity\<close>, the difference of \<^verbatim>\<open>Infinity\<close> and itself is \<^verbatim>\<open>NaN\<close>, and
  \<^verbatim>\<open>NaN !== 0\<close>, so comparing the version with itself returns \<^verbatim>\<open>NaN\<close>, not 0.
\<close>

theorem compareVersion_huge_not_reflexive:
  "valid_version huge_version \<and> compareVersion huge_version huge_version = Inr NaN"
  using parseInt_huge compareVersion_huge by simp

section \<open>The calendar\<close>

lemma div_bounds: "0 < k \<Longrightarrow> k * (x div k) \<le> x \<and> x - (k - 1) \<le> k * (x div k)" for x k :: int
  using mult_div_mod_eq [of k x] pos_mod_sign [of k x] pos_mod_bound [of k x] by linarith

lemma div_succ: "1 < k \<Longrightarrow> (x + 1) div k = x div k + (if x mod k = k - 1 then 1 else 0)" for x k :: int
proof -
  assume k: "1 < k"
  have b: "0 \<le> x mod k" "x mod k < k" using k by simp_all
  have "(x + 1) div k = x div k + (x mod k + 1) div k"
    using k by (simp add: div_add1_eq [of x 1 k])
  moreover have "(x mod k + 1) div k = (if x mod k = k - 1 then 1 else 0)"
  proof (cases "x mod k = k - 1")
    case True
    then show ?thesis using k by simp
  next
    case False
    with b have "0 \<le> x mod k + 1" "x mod k + 1 < k" by linarith+
    then have "(x mod k + 1) div k = 0" by (rule div_pos_pos_trivial)
    with False show ?thesis by simp
  qed
  ultimately show ?thesis by simp
qed

lemma mod_shift: "1 < k \<Longrightarrow> c mod k = 1 \<Longrightarrow> ((y - c) mod k = k - 1) = (y mod k = 0)" for y c k :: int
proof -
  assume k: "1 < k" and c: "c mod k = 1"
  have e: "(y - c) mod k = (y mod k - 1) mod k"
    using c by (metis mod_diff_eq)
  have b: "0 \<le> y mod k" "y mod k < k" using k by simp_all
  show ?thesis
  proof (cases "y mod k = 0")
    case True
    then show ?thesis using k e by (simp add: zmod_minus1)
  next
    case False
    with b have "0 \<le> y mod k - 1" "y mod k - 1 < k" by linarith+
    then have "(y mod k - 1) mod k = y mod k - 1" by (rule mod_pos_pos_trivial)
    then show ?thesis using e b False by auto
  qed
qed

lemma mod_0_coarser: "k dvd n \<Longrightarrow> y mod n = 0 \<Longrightarrow> y mod k = 0" for y k n :: int
  by (meson dvd_trans mod_eq_0_iff_dvd)

lemma DayFromYear_step: "DayFromYear (y + 1) = DayFromYear y + 365 + InLeapYear y"
proof -
  have a: "y + 1 - 1969 = (y - 1969) + 1" "y + 1 - 1901 = (y - 1901) + 1"
    "y + 1 - 1601 = (y - 1601) + 1" by simp_all
  have m4: "((y - 1969) mod 4 = 3) = (y mod 4 = 0)"
    using mod_shift [of 4 1969 y] by simp
  have m100: "((y - 1901) mod 100 = 99) = (y mod 100 = 0)"
    using mod_shift [of 100 1901 y] by simp
  have m400: "((y - 1601) mod 400 = 399) = (y mod 400 = 0)"
    using mod_shift [of 400 1601 y] by simp
  have d: "y mod 400 = 0 \<Longrightarrow> y mod 100 = 0" "y mod 100 = 0 \<Longrightarrow> y mod 4 = 0"
    using mod_0_coarser [of 100 400 y] mod_0_coarser [of 4 100 y] by simp_all
  have s4: "(y - 1969 + 1) div 4 = (y - 1969) div 4 + (if y mod 4 = 0 then 1 else 0)"
    using div_succ [of 4 "y - 1969"] m4 by simp
  have s100: "(y - 1901 + 1) div 100 = (y - 1901) div 100 + (if y mod 100 = 0 then 1 else 0)"
    using div_succ [of 100 "y - 1901"] m100 by simp
  have s400: "(y - 1601 + 1) div 400 = (y - 1601) div 400 + (if y mod 400 = 0 then 1 else 0)"
    using div_succ [of 400 "y - 1601"] m400 by simp
  show ?thesis
    unfolding DayFromYear_def InLeapYear_def a s4 s100 s400
    using d by auto
qed

lemma DayFromYear_bounds:
  "146097 * y - 287811596 \<le> 400 * DayFromYear y \<and> 400 * DayFromYear y \<le> 146097 * y - 287810501"
proof -
  have "4 * ((y - 1969) div 4) \<le> y - 1969" "y - 1969 - 3 \<le> 4 * ((y - 1969) div 4)"
    "100 * ((y - 1901) div 100) \<le> y - 1901" "y - 1901 - 99 \<le> 100 * ((y - 1901) div 100)"
    "400 * ((y - 1601) div 400) \<le> y - 1601" "y - 1601 - 399 \<le> 400 * ((y - 1601) div 400)"
    using div_bounds [of 4 "y - 1969"] div_bounds [of 100 "y - 1901"] div_bounds [of 400 "y - 1601"]
    by simp_all
  then show ?thesis
    unfolding DayFromYear_def by (simp add: algebra_simps)
qed

lemma YearFromDay_bounds: "DayFromYear (YearFromDay d) \<le> d \<and> d < DayFromYear (YearFromDay d + 1)"
proof -
  define y where "y = 1970 + (400 * d) div 146097"
  have "146097 * ((400 * d) div 146097) \<le> 400 * d"
    "400 * d - 146096 \<le> 146097 * ((400 * d) div 146097)"
    using div_bounds [of 146097 "400 * d"] by simp_all
  then have z: "146097 * y - 287811090 \<le> 400 * d" "400 * d \<le> 146097 * y - 287811090 + 146096"
    unfolding y_def by (simp_all add: algebra_simps)
  have "400 * DayFromYear (y - 1) \<le> 146097 * y - 146097 - 287810501"
    using DayFromYear_bounds [of "y - 1"] by (simp add: algebra_simps)
  with z have lo: "DayFromYear (y - 1) \<le> d" by linarith
  have "146097 * y + 292194 - 287811596 \<le> 400 * DayFromYear (y + 1 + 1)"
    using DayFromYear_bounds [of "y + 1 + 1"] by (simp add: algebra_simps)
  with z have hi: "d < DayFromYear (y + 1 + 1)" by linarith
  have s: "DayFromYear (y - 1 + 1) = DayFromYear (y - 1) + 365 + InLeapYear (y - 1)"
    by (rule DayFromYear_step)
  show ?thesis
    using lo hi s unfolding YearFromDay_def Let_def y_def [symmetric]
    by auto
qed

lemma MonthFromTime_range: "0 \<le> MonthFromTime t \<and> MonthFromTime t \<le> 11"
  by (simp add: MonthFromTime_def Let_def)


lemma Day_TimeWithinDay: "Day t * msPerDay + TimeWithinDay t = t"
  by (simp add: Day_def TimeWithinDay_def)

lemma setHours0_local_midnight: "setHours0 zone d = local_midnight zone d"
  by (simp add: setHours0_def local_midnight_def MakeDate_def Let_def)


lemma month_start_step:
  "0 \<le> m \<Longrightarrow> m \<le> 10 \<Longrightarrow>
     month_start (InLeapYear y) (m + 1) - month_start (InLeapYear y) m = days_in_month y m"
proof -
  assume "0 \<le> m" "m \<le> 10"
  then have "m = 0 \<or> m = 1 \<or> m = 2 \<or> m = 3 \<or> m = 4 \<or> m = 5 \<or> m = 6 \<or>
    m = 7 \<or> m = 8 \<or> m = 9 \<or> m = 10" by arith
  then show ?thesis
    by (elim disjE) (simp_all add: month_start_def days_in_month_def)
qed

lemma MakeDay_previous_month:
  "MakeDay (YearFromTime t) (MonthFromTime t - 1) (DateFromTime t) =
     Day t - previous_month_length t"
proof (cases "MonthFromTime t = 0")
  case True
  have "DayFromYear (YearFromTime t - 1 + 1) =
          DayFromYear (YearFromTime t - 1) + 365 + InLeapYear (YearFromTime t - 1)"
    by (rule DayFromYear_step)
  then show ?thesis
    using True
    by (simp add: MakeDay_def Let_def DateFromTime_def DayWithinYear_def previous_month_def
        previous_month_length_def month_start_def days_in_month_def)
next
  case False
  with MonthFromTime_range [of t] have r: "0 \<le> MonthFromTime t - 1" "MonthFromTime t - 1 \<le> 10"
    by linarith+
  then have "(MonthFromTime t - 1) div 12 = 0" "(MonthFromTime t - 1) mod 12 = MonthFromTime t - 1"
    by simp_all
  moreover from month_start_step [OF r, of "YearFromTime t"]
  have "month_start (InLeapYear (YearFromTime t)) (MonthFromTime t) -
          month_start (InLeapYear (YearFromTime t)) (MonthFromTime t - 1) =
        days_in_month (YearFromTime t) (MonthFromTime t - 1)" by simp
  ultimately show ?thesis
    using False
    by (simp add: MakeDay_def Let_def DateFromTime_def DayWithinYear_def previous_month_def
        previous_month_length_def)
qed

lemma setMonth_back:
  "setMonth zone d (getMonth zone d - 1) =
     days_earlier zone (previous_month_length (LocalTime zone d)) d"
  using Day_TimeWithinDay [of "LocalTime zone d"]
  by (simp add: setMonth_def getMonth_def Let_def MakeDay_previous_month days_earlier_def
      MakeDate_def algebra_simps)

lemma local_midnight_constant:
  "\<forall>t b. zone t b = c \<Longrightarrow> local_midnight zone t = t - TimeWithinDay (t + c)"
  using Day_TimeWithinDay [of "t + c"]
  by (simp add: local_midnight_def LocalTime_def UTC_def)

lemma days_earlier_constant:
  "\<forall>t b. zone t b = c \<Longrightarrow> days_earlier zone k t = t - k * msPerDay"
  by (simp add: days_earlier_def LocalTime_def UTC_def)

lemma TimeWithinDay_shift: "TimeWithinDay (t - k * msPerDay) = TimeWithinDay t"
proof -
  have "(t - k * msPerDay) mod msPerDay = (t + (- k) * msPerDay) mod msPerDay" by simp
  also have "\<dots> = t mod msPerDay" by (rule mod_mult_self1)
  finally show ?thesis by (simp add: TimeWithinDay_def)
qed

lemma local_midnight_earlier_constant:
  assumes "\<forall>t b. zone t b = c"
  shows "local_midnight zone (days_earlier zone k t) = t - TimeWithinDay (t + c) - k * msPerDay"
proof -
  have "t - k * msPerDay + c = t + c - k * msPerDay" by simp
  then have "TimeWithinDay (t - k * msPerDay + c) = TimeWithinDay (t + c)"
    by (simp only: TimeWithinDay_shift)
  then show ?thesis
    by (simp add: local_midnight_constant [OF assms] days_earlier_constant [OF assms])
qed



section \<open>The update check\<close>

lemma requests_updateAvailable:
  "requests (updateAvailable e st u i cur) =
     (if lastChecked (load_cached e st) \<le> intervalDates e i then [u] else [])"
  by (simp add: updateAvailable_def Let_def split: option.split)

lemma updateAvailable_fresh:
  "\<not> lastChecked (load_cached e st) \<le> intervalDates e i \<Longrightarrow>
     updateAvailable e st u i cur =
       \<lparr>result = filter_newer (versions (load_cached e st)) cur, storage_after = st,
        requests = [], console = []\<rparr>"
  by (simp add: updateAvailable_def Let_def)

lemma updateAvailable_refreshed:
  "lastChecked (load_cached e st) \<le> intervalDates e i \<Longrightarrow> fetch e u = Some r \<Longrightarrow>
   json r = Some body \<Longrightarrow>
     result (updateAvailable e st u i cur) = filter_newer body cur \<and>
     storage_after (updateAvailable e st u i cur) =
       (if storage_set e
        then st(storageKey e \<mapsto> \<lparr>lastChecked = now_fetched e, versions = body\<rparr>) else st)"
  by (cases "load_cached e st") (simp add: updateAvailable_def Let_def)

lemma updateAvailable_fetch_rejected:
  "lastChecked (load_cached e st) \<le> intervalDates e i \<Longrightarrow> fetch e u = None \<Longrightarrow>
     result (updateAvailable e st u i cur) = Inl FetchFailed \<and>
     storage_after (updateAvailable e st u i cur) = st"
  by (simp add: updateAvailable_def Let_def)

lemma updateAvailable_not_json:
  "lastChecked (load_cached e st) \<le> intervalDates e i \<Longrightarrow> fetch e u = Some r \<Longrightarrow>
   json r = None \<Longrightarrow>
     result (updateAvailable e st u i cur) = Inl JsonSyntaxError \<and>
     storage_after (updateAvailable e st u i cur) = st"
  by (simp add: updateAvailable_def Let_def)



lemma intervalDates_Monthly:
  "intervalDates e Monthly =
     local_midnight (LocalTZA e)
       (days_earlier (LocalTZA e) (previous_month_length (LocalTime (LocalTZA e) (now e))) (now e))"
  by (simp add: intervalDates_def getIntervalDate_def Let_def setHours0_local_midnight
      setMonth_back)

lemma filter_newer_safe:
  "valid_version cur \<Longrightarrow> safe_version cur \<Longrightarrow> all_valid vs \<Longrightarrow> all_safe vs \<Longrightarrow>
     filter_newer vs cur = Inr (newer_versions cur vs)"
  by (induction vs) (simp_all add: all_valid_def all_safe_def newer_versions_def compareVersion_safe)

text \<open>The equations that evaluate a check on the examples.\<close>

lemmas example_eval =
  example_env_def example_store_def release_def load_cached_def Storage_get_def storageKey_def
  intervalDates_def getIntervalDate_def setHours0_def LocalTime_def UTC_def MakeDate_def
  Day_def msPerDay_def





lemma compareVersion_release:
  "compareVersion ''1.0'' ''1.2'' = Inr (Num (- 2))"
  "compareVersion ''2.0'' ''1.2'' = Inr (Num 1)"
  "compareVersion ''1.5'' ''1.2'' = Inr (Num 3)"
  \<open>compareVersion ''2.0-beta'' ''1.2'' = Inl (Error ''Parameter "a" is not a version: "2.0-beta"'')\<close>
  "compareVersion ''9007199254740993'' ''9007199254740992'' = Inr (Num 0)"
  by (simp_all add: compareVersion_eval)

lemma previous_month_length_le: "previous_month_length t \<le> 31"
  by (simp add: previous_month_length_def days_in_month_def InLeapYear_def)

text \<open>
  Claim C1 at a response with a status that is no success. \<^verbatim>\<open>updateAvailable\<close> does not
  read \<^verbatim>\<open>response.ok\<close> (\<^verbatim>\<open>downloadUpdate\<close> does): the host answers 404 with the body \<^verbatim>\<open>[]\<close>,
  and the check returns the empty list and replaces the cache record, where the claim has
  a failed check and an untouched record. (When the request itself fails, or the body is
  not JSON, the check does fail and the store is untouched: lemmas
  \<open>updateAvailable_fetch_rejected\<close> and \<open>updateAvailable_not_json\<close>.)
\<close>

theorem updateAvailable_ignores_status:
  "fetch error_page_env ''https://example.org/version.json'' =
     Some (Response False 404 ''Not Found'' (Some []) []) \<and>
   result (updateAvailable error_page_env (example_store 1690000000000 [release ''2.0''])
             ''https://example.org/version.json'' EveryTime ''1.0'') = Inr [] \<and>
   storage_after (updateAvailable error_page_env (example_store 1690000000000 [release ''2.0''])
             ''https://example.org/version.json'' EveryTime ''1.0'') =
     example_store 1700040000250 []"
  by (simp add: error_page_env_def updateAvailable_def Let_def example_eval)

text \<open>
  Claim C3, as the code has it. When the store holds no record for the script, the record
  that \<^verbatim>\<open>updateAvailable\<close> works with is the default one, with \<open>lastChecked\<close> 0 and no
  versions, so that the check requests the manifest exactly when the cutoff is not
  negative; \<^verbatim>\<open>getCache\<close> returns what \<^verbatim>\<open>Storage.get\<close> returns, which is \<^verbatim>\<open>null\<close>. Neither
  throws.
\<close>

theorem cache_default_when_absent:
  assumes "Storage_get st (storageKey e) = None"
  shows "load_cached e st = \<lparr>lastChecked = 0, versions = []\<rparr> \<and>
         getCache e st = None \<and>
         requests (updateAvailable e st u i cur) = (if 0 \<le> intervalDates e i then [u] else [])"
  using assms by (simp add: load_cached_def getCache_def requests_updateAvailable)

theorem cache_default_when_absent_witness:
  "Storage_get Map.empty (storageKey example_env) = None \<and>
   load_cached example_env Map.empty = \<lparr>lastChecked = 0, versions = []\<rparr> \<and>
   getCache example_env Map.empty = None \<and>
   requests (updateAvailable example_env Map.empty ''u'' Monthly ''1.0'') = [''u'']"
proof -
  have a: "Storage_get Map.empty (storageKey example_env) = None"
    by (simp add: Storage_get_def)
  have z: "\<forall>t b. LocalTZA example_env t b = 3600000"
    by (simp add: example_env_def)
  let ?l = "previous_month_length (LocalTime (LocalTZA example_env) (now example_env))"
  have "intervalDates example_env Monthly =
      now example_env - TimeWithinDay (now example_env + 3600000) - ?l * msPerDay"
    by (simp add: intervalDates_Monthly local_midnight_earlier_constant [OF z])
  moreover have "?l * msPerDay \<le> 31 * msPerDay"
    using previous_month_length_le [of "LocalTime (LocalTZA example_env) (now example_env)"]
    by (intro mult_right_mono) (simp_all add: msPerDay_def)
  ultimately have "0 \<le> intervalDates example_env Monthly"
    by (simp add: example_env_def TimeWithinDay_def msPerDay_def)
  with cache_default_when_absent [OF a, of "''u''" Monthly "''1.0''"] a show ?thesis by simp
qed

text \<open>
  Claim C3 as stated fails for \<^verbatim>\<open>getCache\<close>: on a store with no record it returns \<^verbatim>\<open>null\<close>,
  not the default record.
\<close>

theorem getCache_absent_is_null:
  "Storage_get Map.empty (storageKey example_env) = None \<and>
   getCache example_env Map.empty = None"
  by (simp add: getCache_def Storage_get_def)

text \<open>
  Claim C4, as the code has it. Take a current version that is valid and whose
  components are safe integers, and a check that comes to filter a list whose entries all
  carry such versions: the cached list when the cache is fresh and nothing is requested,
  or, when the cache is stale, the list that the response to the request parses to. The
  check returns the entries that compare greater than the current version, in the order
  of the list. With the cached versions 1.0, 2.0, 1.5 and the current version 1.2 the
  result is 2.0, 1.5.
\<close>

theorem updateAvailable_returns_newer:
  assumes "valid_version cur" and "safe_version cur"
  shows "(\<not> lastChecked (load_cached e st) \<le> intervalDates e i \<and>
            all_valid (versions (load_cached e st)) \<and> all_safe (versions (load_cached e st)) \<longrightarrow>
          result (updateAvailable e st u i cur) =
            Inr (newer_versions cur (versions (load_cached e st)))) \<and>
         (lastChecked (load_cached e st) \<le> intervalDates e i \<and> fetch e u = Some r \<and>
            json r = Some body \<and> all_valid body \<and> all_safe body \<longrightarrow>
          result (updateAvailable e st u i cur) = Inr (newer_versions cur body)) \<and>
         result (updateAvailable example_env
                   (example_store 1700040000000 [release ''1.0'', release ''2.0'', release ''1.5''])
                   u Daily ''1.2'') = Inr [release ''2.0'', release ''1.5'']"
proof (intro conjI impI)
  assume "\<not> lastChecked (load_cached e st) \<le> intervalDates e i \<and>
            all_valid (versions (load_cached e st)) \<and> all_safe (versions (load_cached e st))"
  then show "result (updateAvailable e st u i cur) =
            Inr (newer_versions cur (versions (load_cached e st)))"
    using assms by (simp add: updateAvailable_fresh filter_newer_safe)
next
  assume "lastChecked (load_cached e st) \<le> intervalDates e i \<and> fetch e u = Some r \<and>
            json r = Some body \<and> all_valid body \<and> all_safe body"
  then show "result (updateAvailable e st u i cur) = Inr (newer_versions cur body)"
    using assms by (simp add: updateAvailable_refreshed filter_newer_safe)
next
  show "result (updateAvailable example_env
                   (example_store 1700040000000 [release ''1.0'', release ''2.0'', release ''1.5''])
                   u Daily ''1.2'') = Inr [release ''2.0'', release ''1.5'']"
    by (simp add: updateAvailable_def Let_def example_eval compareVersion_release)
qed

theorem updateAvailable_returns_newer_witness:
  "valid_version ''1.2'' \<and> safe_version ''1.2'' \<and>
   all_valid [release ''1.0'', release ''2.0'', release ''1.5''] \<and>
   all_safe [release ''1.0'', release ''2.0'', release ''1.5''] \<and>
   result (updateAvailable example_env
             (example_store 1700040000000 [release ''1.0'', release ''2.0'', release ''1.5''])
             ''u'' Daily ''1.2'') = Inr [release ''2.0'', release ''1.5''] \<and>
   all_valid [release ''3.0'', release ''0.9''] \<and> all_safe [release ''3.0'', release ''0.9''] \<and>
   result (updateAvailable manifest_env (example_store 1700040000000 [release ''1.0''])
             ''u'' EveryTime ''1.2'') = Inr [release ''3.0'']"
proof -
  let ?st = "example_store 1700040000000 [release ''1.0'', release ''2.0'', release ''1.5'']"
  let ?st2 = "example_store 1700040000000 [release ''1.0'']"
  have v: "valid_version ''1.2''" and s: "safe_version ''1.2''"
    by (simp_all add: version_eval)
  have a: "all_valid [release ''1.0'', release ''2.0'', release ''1.5'']"
    "all_valid [release ''3.0'', release ''0.9'']"
    "all_safe [release ''1.0'', release ''2.0'', release ''1.5'']"
    "all_safe [release ''3.0'', release ''0.9'']"
    by (simp_all add: all_valid_def all_safe_def release_def version_eval)
  have fresh: "\<not> lastChecked (load_cached example_env ?st) \<le> intervalDates example_env Daily"
    "versions (load_cached example_env ?st) = [release ''1.0'', release ''2.0'', release ''1.5'']"
    by (simp_all add: example_eval)
  have stale: "lastChecked (load_cached manifest_env ?st2) \<le> intervalDates manifest_env EveryTime"
    "fetch manifest_env ''u'' = Some (Response True 200 ''OK'' (Some [release ''3.0'', release ''0.9'']) [])"
    by (simp_all add: manifest_env_def example_eval)
  have n: "newer_versions ''1.2'' [release ''3.0'', release ''0.9''] = [release ''3.0'']"
    by (simp add: newer_versions_def release_def version_eval)
  from updateAvailable_returns_newer [OF v s, of example_env ?st Daily "''u''"] fresh a
  have 1: "result (updateAvailable example_env ?st ''u'' Daily ''1.2'') =
             Inr [release ''2.0'', release ''1.5'']" by blast
  from updateAvailable_returns_newer [OF v s, of manifest_env ?st2 EveryTime "''u''"
      "Response True 200 ''OK'' (Some [release ''3.0'', release ''0.9'']) []"
      "[release ''3.0'', release ''0.9'']"] stale a n
  have 2: "result (updateAvailable manifest_env ?st2 ''u'' EveryTime ''1.2'') = Inr [release ''3.0'']"
    by simp
  from v s a 1 2 show ?thesis by simp
qed

text \<open>
  Claim C4 as stated fails on a cached list with an entry outside the grammar: the check
  throws the error of \<^verbatim>\<open>compareVersion\<close> for that entry and returns nothing. It also fails
  on components that are no safe integers: the cached 9007199254740993 is greater than
  the current 9007199254740992 by the comparison of the specification, and the check
  leaves it out, since both read as the same double.
\<close>

theorem updateAvailable_entries_not_comparable:
  \<open>valid_version ''1.2'' \<and>
   result (updateAvailable example_env
             (example_store 1700040000000 [release ''1.0'', release ''2.0-beta''])
             ''u'' Daily ''1.2'') =
     Inl (Error ''Parameter "a" is not a version: "2.0-beta"'') \<and>
   valid_version ''9007199254740992'' \<and> all_valid [release ''9007199254740993''] \<and>
   newer_versions ''9007199254740992'' [release ''9007199254740993''] =
     [release ''9007199254740993''] \<and>
   result (updateAvailable example_env
             (example_store 1700040000000 [release ''9007199254740993''])
             ''u'' Daily ''9007199254740992'') = Inr []\<close>
proof (intro conjI)
  show "valid_version ''1.2''" "valid_version ''9007199254740992''"
    by (simp_all add: version_eval)
  show "all_valid [release ''9007199254740993'']"
    by (simp add: all_valid_def release_def version_eval)
  show "newer_versions ''9007199254740992'' [release ''9007199254740993''] =
     [release ''9007199254740993'']"
    by (simp add: newer_versions_def release_def version_eval)
  show \<open>result (updateAvailable example_env
             (example_store 1700040000000 [release ''1.0'', release ''2.0-beta''])
             ''u'' Daily ''1.2'') =
     Inl (Error ''Parameter "a" is not a version: "2.0-beta"'')\<close>
    by (simp add: updateAvailable_def Let_def example_eval compareVersion_release)
  show "result (updateAvailable example_env
             (example_store 1700040000000 [release ''9007199254740993''])
             ''u'' Daily ''9007199254740992'') = Inr []"
    by (simp add: updateAvailable_def Let_def example_eval compareVersion_release)
qed

section \<open>Download, install and clean up: the claims\<close>

lemma fs_op_cases:
  "fs_op e c f h = (r, h') \<Longrightarrow>
     (r = Inl FileError \<and> h' = h\<lparr>calls := calls h @ [c]\<rparr> \<and>
        (fs_fault e (length (calls h)) \<or> f (files h) = None)) \<or>
     (\<exists>x fs. r = Inr x \<and> \<not> fs_fault e (length (calls h)) \<and> f (files h) = Some (x, fs) \<and>
        h' = h\<lparr>calls := calls h @ [c], files := fs\<rparr>)"
  by (auto simp: fs_op_def Let_def split: if_splits option.splits)

lemma fs_op_Inr:
  "fs_op e c f h = (Inr x, h') \<Longrightarrow>
     \<exists>fs. \<not> fs_fault e (length (calls h)) \<and> f (files h) = Some (x, fs) \<and>
       h' = h\<lparr>calls := calls h @ [c], files := fs\<rparr>"
  by (auto dest: fs_op_cases)

lemma fs_op_Inl:
  "fs_op e c f h = (Inl err, h') \<Longrightarrow> err = FileError \<and> h' = h\<lparr>calls := calls h @ [c]\<rparr>"
  by (auto dest: fs_op_cases)

lemma rename_ok:
  "\<not> fs_fault e (length (calls h)) \<Longrightarrow> files h source = Some n \<Longrightarrow> files h target = None \<Longrightarrow>
     rename e source target h =
       (Inr (), h\<lparr>calls := calls h @ [Rename source target],
                  files := ((files h)(source := None))(target \<mapsto> n)\<rparr>)"
  by (simp add: rename_def fs_op_def Let_def)

lemma rename_fails:
  "fs_fault e (length (calls h)) \<or> files h source = None \<or> files h target \<noteq> None \<Longrightarrow>
     rename e source target h = (Inl FileError, h\<lparr>calls := calls h @ [Rename source target]\<rparr>)"
  by (auto simp: rename_def fs_op_def Let_def split: option.splits)

lemma scriptBackup_differs: "scriptBackup e \<noteq> script_directory e"
  by (simp add: scriptBackup_def)

lemma zip_differs: "Path_join d ''scriptUpdate.zip'' \<noteq> unzippedFolder e"
proof
  assume "Path_join d ''scriptUpdate.zip'' = unzippedFolder e"
  then have "rev (Path_join d ''scriptUpdate.zip'') = rev (unzippedFolder e)" by simp
  then show False by (simp add: Path_join_def unzippedFolder_def)
qed

lemma put_entry_names: "fst ` set (put_entry x es) = insert (fst x) (fst ` set es)"
  by (induction x es rule: put_entry.induct) auto

lemma unzip_into_names:
  "fst ` set (unzip_into archive dir) = fst ` set archive \<union> fst ` set dir"
  unfolding unzip_into_def
  by (induction archive arbitrary: dir) (simp_all add: put_entry_names Un_commute insert_commute)

text \<open>
  Claim C6. \<^verbatim>\<open>installDownloadedScript\<close> asks for two renames at most, in this order: the
  script directory to the backup path, then the staging directory to the script
  directory. The second is asked for only when the first has succeeded: when the first
  fails, it is the only call and the files are untouched. When the first succeeds and the
  second fails, the backup path holds the old script, the staging directory is as it
  was, and the script directory is absent. When both succeed, the script directory
  holds the update, the backup path the old script, and the staging directory is gone.
\<close>

theorem install_renames_in_order:
  "(fs_fault e (length (calls h)) \<or> files h (script_directory e) = None \<or>
      files h (scriptBackup e) \<noteq> None \<longrightarrow>
    installDownloadedScript e h =
      (Inl FileError, h\<lparr>calls := calls h @ [Rename (script_directory e) (scriptBackup e)]\<rparr>)) \<and>
   (\<not> fs_fault e (length (calls h)) \<and> files h (script_directory e) = Some old \<and>
      files h (scriptBackup e) = None \<and> unzippedFolder e \<noteq> script_directory e \<and>
      unzippedFolder e \<noteq> scriptBackup e \<longrightarrow>
    (fs_fault e (Suc (length (calls h))) \<or> files h (unzippedFolder e) = None \<longrightarrow>
       (\<exists>h'. installDownloadedScript e h = (Inl FileError, h') \<and>
             calls h' = calls h @ [Rename (script_directory e) (scriptBackup e),
                                   Rename (unzippedFolder e) (script_directory e)] \<and>
             files h' (script_directory e) = None \<and>
             files h' (scriptBackup e) = Some old \<and>
             files h' (unzippedFolder e) = files h (unzippedFolder e))) \<and>
    (\<not> fs_fault e (Suc (length (calls h))) \<and> files h (unzippedFolder e) = Some new \<longrightarrow>
       (\<exists>h'. installDownloadedScript e h = (Inr (), h') \<and>
             calls h' = calls h @ [Rename (script_directory e) (scriptBackup e),
                                   Rename (unzippedFolder e) (script_directory e)] \<and>
             files h' (script_directory e) = Some new \<and>
             files h' (scriptBackup e) = Some old \<and>
             files h' (unzippedFolder e) = None)))"
proof (intro conjI impI)
  assume "fs_fault e (length (calls h)) \<or> files h (script_directory e) = None \<or>
      files h (scriptBackup e) \<noteq> None"
  then show "installDownloadedScript e h =
      (Inl FileError, h\<lparr>calls := calls h @ [Rename (script_directory e) (scriptBackup e)]\<rparr>)"
    by (simp add: installDownloadedScript_def rename_fails)
next
  assume a: "\<not> fs_fault e (length (calls h)) \<and> files h (script_directory e) = Some old \<and>
      files h (scriptBackup e) = None \<and> unzippedFolder e \<noteq> script_directory e \<and>
      unzippedFolder e \<noteq> scriptBackup e"
  define h1 where "h1 = h\<lparr>calls := calls h @ [Rename (script_directory e) (scriptBackup e)],
      files := ((files h)(script_directory e := None))(scriptBackup e \<mapsto> old)\<rparr>"
  from a have first: "rename e (script_directory e) (scriptBackup e) h = (Inr (), h1)"
    unfolding h1_def by (simp add: rename_ok)
  have h1: "length (calls h1) = Suc (length (calls h))"
    "files h1 (script_directory e) = None"
    "files h1 (scriptBackup e) = Some old"
    "files h1 (unzippedFolder e) = files h (unzippedFolder e)"
    using a scriptBackup_differs [of e] by (simp_all add: h1_def)
  {
    assume "fs_fault e (Suc (length (calls h))) \<or> files h (unzippedFolder e) = None"
    with h1 have "rename e (unzippedFolder e) (script_directory e) h1 =
        (Inl FileError, h1\<lparr>calls := calls h1 @ [Rename (unzippedFolder e) (script_directory e)]\<rparr>)"
      by (intro rename_fails) auto
    with first h1 show "\<exists>h'. installDownloadedScript e h = (Inl FileError, h') \<and>
             calls h' = calls h @ [Rename (script_directory e) (scriptBackup e),
                                   Rename (unzippedFolder e) (script_directory e)] \<and>
             files h' (script_directory e) = None \<and>
             files h' (scriptBackup e) = Some old \<and>
             files h' (unzippedFolder e) = files h (unzippedFolder e)"
      by (simp add: installDownloadedScript_def) (simp add: h1_def)
  }
  {
    assume "\<not> fs_fault e (Suc (length (calls h))) \<and> files h (unzippedFolder e) = Some new"
    with h1 have "rename e (unzippedFolder e) (script_directory e) h1 =
        (Inr (), h1\<lparr>calls := calls h1 @ [Rename (unzippedFolder e) (script_directory e)],
                    files := ((files h1)(unzippedFolder e := None))(script_directory e \<mapsto> new)\<rparr>)"
      by (intro rename_ok) auto
    moreover from a have "scriptBackup e \<noteq> unzippedFolder e" by auto
    moreover note first h1 a scriptBackup_differs [of e]
    ultimately
    show "\<exists>h'. installDownloadedScript e h = (Inr (), h') \<and>
             calls h' = calls h @ [Rename (script_directory e) (scriptBackup e),
                                   Rename (unzippedFolder e) (script_directory e)] \<and>
             files h' (script_directory e) = Some new \<and>
             files h' (scriptBackup e) = Some old \<and>
             files h' (unzippedFolder e) = None"
      by (simp add: installDownloadedScript_def) (simp add: h1_def)
  }
qed

text \<open>The equations that evaluate the paths of the examples.\<close>

lemmas host_eval =
  example_host_def example_env_def scriptBackup_def unzippedFolder_def Path_join_def

theorem install_renames_in_order_witness:
  "(\<exists>h'. installDownloadedScript (example_env\<lparr>fs_fault := (\<lambda>n. n = 1)\<rparr>) example_host =
            (Inl FileError, h') \<and>
         calls h' = [Rename ''/scripts/demo'' ''/scripts/demo_updateBackup'',
                     Rename ''/tmp/scriptUpdate'' ''/scripts/demo''] \<and>
         files h' ''/scripts/demo'' = None \<and>
         files h' ''/scripts/demo_updateBackup'' = Some (Dir [(''index.tsx'', ''old'')]) \<and>
         files h' ''/tmp/scriptUpdate'' = Some (Dir [(''index.tsx'', ''new'')])) \<and>
   (\<exists>h'. installDownloadedScript example_env example_host = (Inr (), h') \<and>
         calls h' = [Rename ''/scripts/demo'' ''/scripts/demo_updateBackup'',
                     Rename ''/tmp/scriptUpdate'' ''/scripts/demo''] \<and>
         files h' ''/scripts/demo'' = Some (Dir [(''index.tsx'', ''new'')]) \<and>
         files h' ''/scripts/demo_updateBackup'' = Some (Dir [(''index.tsx'', ''old'')]) \<and>
         files h' ''/tmp/scriptUpdate'' = None) \<and>
   installDownloadedScript (example_env\<lparr>fs_fault := (\<lambda>n. n = 0)\<rparr>) example_host =
     (Inl FileError,
      example_host\<lparr>calls := [Rename ''/scripts/demo'' ''/scripts/demo_updateBackup'']\<rparr>)"
proof -
  let ?faulty = "example_env\<lparr>fs_fault := (\<lambda>n. n = 1)\<rparr>"
  let ?broken = "example_env\<lparr>fs_fault := (\<lambda>n. n = 0)\<rparr>"
  have 1: "\<exists>h'. installDownloadedScript ?faulty example_host = (Inl FileError, h') \<and>
         calls h' = calls example_host @
                    [Rename (script_directory ?faulty) (scriptBackup ?faulty),
                     Rename (unzippedFolder ?faulty) (script_directory ?faulty)] \<and>
         files h' (script_directory ?faulty) = None \<and>
         files h' (scriptBackup ?faulty) = Some (Dir [(''index.tsx'', ''old'')]) \<and>
         files h' (unzippedFolder ?faulty) = files example_host (unzippedFolder ?faulty)"
    using install_renames_in_order [of ?faulty example_host "Dir [(''index.tsx'', ''old'')]"]
    by (simp add: host_eval)
  have 2: "\<exists>h'. installDownloadedScript example_env example_host = (Inr (), h') \<and>
         calls h' = calls example_host @
                    [Rename (script_directory example_env) (scriptBackup example_env),
                     Rename (unzippedFolder example_env) (script_directory example_env)] \<and>
         files h' (script_directory example_env) = Some (Dir [(''index.tsx'', ''new'')]) \<and>
         files h' (scriptBackup example_env) = Some (Dir [(''index.tsx'', ''old'')]) \<and>
         files h' (unzippedFolder example_env) = None"
    using install_renames_in_order [of example_env example_host "Dir [(''index.tsx'', ''old'')]"
        "Dir [(''index.tsx'', ''new'')]"]
    by (simp add: host_eval)
  have 3: "installDownloadedScript ?broken example_host =
     (Inl FileError,
      example_host\<lparr>calls := calls example_host @
         [Rename (script_directory ?broken) (scriptBackup ?broken)]\<rparr>)"
    using install_renames_in_order [of ?broken example_host]
    by (simp add: host_eval)
  from 1 2 3 show ?thesis
    by (simp add: host_eval)
qed

text \<open>
  Claim C7. When the response to the download has a status that is no success,
  \<^verbatim>\<open>downloadUpdate\<close> throws a \<^verbatim>\<open>DownloadError\<close> holding the URL and the response, and has
  asked for no file operation: the file system and the record of calls are as before. The
  string form of the error shows the URL, the status and the status text, and the error is
  none of the other errors.
\<close>

theorem download_rejects_bad_status:
  assumes "fetch e address = Some r" and "\<not> ok r"
  shows "downloadUpdate e address h = (Inl (DownloadError address r), h) \<and>
         toString address r =
           ''Failed to download the update from '' @ address @ '': '' @
             string_of_nat (status r) @ '' '' @ statusText r \<and>
         DownloadError address r \<noteq> Error msg \<and>
         DownloadError address r \<noteq> FetchFailed \<and>
         DownloadError address r \<noteq> FileError \<and>
         toString ''https://example.org/2.0.zip'' (Response False 404 ''Not Found'' None []) =
           ''Failed to download the update from https://example.org/2.0.zip: 404 Not Found''"
  using assms by (simp add: downloadUpdate_def toString_def string_of_nat.simps digit_char_def)

theorem download_rejects_bad_status_witness:
  "fetch error_page_env ''https://example.org/2.0.zip'' =
     Some (Response False 404 ''Not Found'' (Some []) []) \<and>
   downloadUpdate error_page_env ''https://example.org/2.0.zip'' example_host =
     (Inl (DownloadError ''https://example.org/2.0.zip''
            (Response False 404 ''Not Found'' (Some []) [])), example_host)"
proof -
  have a: "fetch error_page_env ''https://example.org/2.0.zip'' =
     Some (Response False 404 ''Not Found'' (Some []) [])"
    by (simp add: error_page_env_def)
  have b: "\<not> ok (Response False 404 ''Not Found'' (Some []) [])"
    by simp
  from download_rejects_bad_status [OF a b, of example_host] a show ?thesis by simp
qed

lemma writeAsData_Inr:
  "writeAsData e p c h = (Inr x, h1) \<Longrightarrow>
     files h1 = (files h)(p \<mapsto> File c) \<and> calls h1 = calls h @ [WriteAsData p]"
  by (auto simp: writeAsData_def dest!: fs_op_Inr split: option.splits node.splits)

lemma createDirectory_Inr:
  "createDirectory e p b h = (Inr x, h1) \<Longrightarrow> files h p = None \<Longrightarrow>
     files h1 = (files h)(p \<mapsto> Dir []) \<and> calls h1 = calls h @ [CreateDirectory p]"
  by (auto simp: createDirectory_def dest!: fs_op_Inr)

lemma unzip_Inr:
  "unzip e p t h = (Inr x, h1) \<Longrightarrow>
     \<exists>content archive old.
       files h p = Some (File content) \<and> archive_entries e content = Some archive \<and>
       files h t = Some (Dir old) \<and>
       files h1 = (files h)(t \<mapsto> Dir (unzip_into archive old)) \<and>
       calls h1 = calls h @ [Unzip p t]"
  by (auto simp: unzip_def dest!: fs_op_Inr split: option.splits node.splits)

lemma readDirectory_Inr:
  "readDirectory e p b h = (Inr listing, h1) \<Longrightarrow>
     \<exists>es. files h p = Some (Dir es) \<and> listing = fst ` set es \<and>
       files h1 = files h \<and> calls h1 = calls h @ [ReadDirectory p]"
  by (auto simp: readDirectory_def dest!: fs_op_Inr split: option.splits node.splits)

lemma remove_Inr:
  "remove e p h = (Inr x, h1) \<Longrightarrow>
     files h1 = (files h)(p := None) \<and> calls h1 = calls h @ [Remove p]"
  by (auto simp: remove_def dest!: fs_op_Inr split: if_splits)

lemma rename_Inr:
  "rename e s t h = (Inr x, h1) \<Longrightarrow>
     \<exists>n. files h s = Some n \<and> files h t = None \<and>
       files h1 = ((files h)(s := None))(t \<mapsto> n) \<and> calls h1 = calls h @ [Rename s t]"
  by (auto simp: rename_def dest!: fs_op_Inr split: option.splits if_splits)

lemma downloadUpdate_Inr:
  assumes "downloadUpdate e address h = (Inr listing, h')"
  shows "\<exists>archive old.
           (files h (unzippedFolder e) = Some (Dir old) \<or>
            files h (unzippedFolder e) = None \<and> old = []) \<and>
           files h' (unzippedFolder e) = Some (Dir (unzip_into archive old)) \<and>
           listing = fst ` set (unzip_into archive old) \<and>
           calls h' =
             calls h @ [WriteAsData (Path_join (temporary_directory e) ''scriptUpdate.zip'')] @
             (if files h (unzippedFolder e) = None then [CreateDirectory (unzippedFolder e)] else []) @
             [Unzip (Path_join (temporary_directory e) ''scriptUpdate.zip'') (unzippedFolder e),
              ReadDirectory (unzippedFolder e)]"
proof -
  let ?zip = "Path_join (temporary_directory e) ''scriptUpdate.zip''"
  let ?dir = "unzippedFolder e"
  from assms obtain r content where
    d: "(case writeAsData e ?zip content h of
           (Inl err, h1) \<Rightarrow> (Inl err, h1)
         | (Inr _, h1) \<Rightarrow>
             (case (if \<not> existsSync ?dir h1 then createDirectory e ?dir True h1 else (Inr (), h1)) of
                (Inl err, h2) \<Rightarrow> (Inl err, h2)
              | (Inr _, h2) \<Rightarrow>
                  (case unzip e ?zip ?dir h2 of
                     (Inl err, h3) \<Rightarrow> (Inl err, h3)
                   | (Inr _, h3) \<Rightarrow> readDirectory e ?dir True h3))) = (Inr listing, h')"
    by (auto simp: downloadUpdate_def Let_def split: option.splits if_splits)
  from d obtain h1 where w: "writeAsData e ?zip content h = (Inr (), h1)"
    by (auto split: prod.splits sum.splits)
  from writeAsData_Inr [OF w] zip_differs [of "temporary_directory e" e]
  have h1: "files h1 ?dir = files h ?dir" "calls h1 = calls h @ [WriteAsData ?zip]"
    by simp_all
  from d w obtain h2 where
    c: "(if \<not> existsSync ?dir h1 then createDirectory e ?dir True h1 else (Inr (), h1)) = (Inr (), h2)"
    by (auto split: prod.splits sum.splits)
  have h2: "(files h ?dir = None \<and> files h2 ?dir = Some (Dir [])) \<or> (files h ?dir \<noteq> None \<and> files h2 ?dir = files h ?dir)"
    "calls h2 = calls h1 @ (if files h ?dir = None then [CreateDirectory ?dir] else [])"
  proof -
    show "(files h ?dir = None \<and> files h2 ?dir = Some (Dir [])) \<or> (files h ?dir \<noteq> None \<and> files h2 ?dir = files h ?dir)"
    proof (cases "files h ?dir = None")
      case True
      with c h1 have "createDirectory e ?dir True h1 = (Inr (), h2)" "files h1 ?dir = None"
        by (simp_all add: existsSync_def)
      from createDirectory_Inr [OF this] True show ?thesis by simp
    next
      case False
      with c h1 show ?thesis by (auto simp: existsSync_def)
    qed
    show "calls h2 = calls h1 @ (if files h ?dir = None then [CreateDirectory ?dir] else [])"
    proof (cases "files h ?dir = None")
      case True
      with c h1 have "createDirectory e ?dir True h1 = (Inr (), h2)" "files h1 ?dir = None"
        by (simp_all add: existsSync_def)
      from createDirectory_Inr [OF this] True show ?thesis by simp
    next
      case False
      with c h1 show ?thesis by (auto simp: existsSync_def)
    qed
  qed
  from d w c obtain h3 where u: "unzip e ?zip ?dir h2 = (Inr (), h3)"
    and rd: "readDirectory e ?dir True h3 = (Inr listing, h')"
    by (auto split: prod.splits sum.splits)
  from unzip_Inr [OF u] obtain archive old where
    h3: "files h2 ?dir = Some (Dir old)" "files h3 = (files h2)(?dir \<mapsto> Dir (unzip_into archive old))"
      "calls h3 = calls h2 @ [Unzip ?zip ?dir]"
    by blast
  from readDirectory_Inr [OF rd] h3 have
    h': "listing = fst ` set (unzip_into archive old)" "files h' = files h3"
      "calls h' = calls h3 @ [ReadDirectory ?dir]"
    by auto
  from h2(1) h3(1) have "files h ?dir = Some (Dir old) \<or> files h ?dir = None \<and> old = []"
    by auto
  with h' h3 h2(2) h1 show ?thesis
    by (intro exI [of _ archive] exI [of _ old]) simp
qed

lemma installDownloadedScript_Inr:
  assumes "installDownloadedScript e g = (Inr (), g')"
    and "unzippedFolder e \<noteq> scriptBackup e"
  shows "files g' (script_directory e) = files g (unzippedFolder e) \<and>
         files g (unzippedFolder e) \<noteq> None"
proof -
  from assms(1) obtain g1 where
    a: "rename e (script_directory e) (scriptBackup e) g = (Inr (), g1)"
    and b: "rename e (unzippedFolder e) (script_directory e) g1 = (Inr (), g')"
    by (auto simp: installDownloadedScript_def split: prod.splits sum.splits)
  from rename_Inr [OF a] obtain n where
    g1: "files g1 = ((files g)(script_directory e := None))(scriptBackup e \<mapsto> n)" by blast
  from rename_Inr [OF b] obtain m where
    g': "files g1 (unzippedFolder e) = Some m"
      "files g' = ((files g1)(unzippedFolder e := None))(script_directory e \<mapsto> m)" by blast
  from g' g1 assms(2) show ?thesis
    by (auto split: if_splits)
qed

lemma cleanFiles_Inr:
  assumes "cleanFiles e h = (Inr (), h')"
  shows "files h' (unzippedFolder e) = None \<and> files h' (scriptBackup e) = None"
proof -
  from assms obtain h1 where
    a: "(if existsSync (scriptBackup e) h then remove e (scriptBackup e) h else (Inr (), h)) = (Inr (), h1)"
    and b: "(if existsSync (unzippedFolder e) h1 then remove e (unzippedFolder e) h1 else (Inr (), h1)) = (Inr (), h')"
    by (auto simp: cleanFiles_def split: prod.splits sum.splits)
  from a have 1: "files h1 (scriptBackup e) = None"
    by (auto simp: existsSync_def dest: remove_Inr split: if_splits)
  from b have 2: "files h' (unzippedFolder e) = None"
    "files h' (scriptBackup e) = files h1 (scriptBackup e) \<or> files h' (scriptBackup e) = None"
    by (auto simp: existsSync_def dest: remove_Inr split: if_splits)
  with 1 show ?thesis by auto
qed

text \<open>The equations that evaluate the file operations on the examples.\<close>

lemmas fs_eval =
  downloadUpdate_def installDownloadedScript_def cleanFiles_def writeAsData_def
  createDirectory_def unzip_def readDirectory_def rename_def remove_def existsSync_def
  fs_op_def unzip_into_def Let_def

lemma fs_op_any:
  "fs_op e c f h = (r, h') \<Longrightarrow>
     calls h' = calls h @ [c] \<and>
     (files h' = files h \<or> (\<exists>x fs. f (files h) = Some (x, fs) \<and> files h' = fs))"
  by (auto dest!: fs_op_cases)

lemma staging_kept_refl: "staging_kept e h h"
  by (simp add: staging_kept_def)

lemma staging_kept_step:
  assumes k: "staging_kept e h h1"
    and c: "calls h2 = calls h1 @ [call]" "call \<in> download_calls e"
      "call = CreateDirectory (unzippedFolder e) \<longrightarrow> files h1 (unzippedFolder e) = None"
    and d: "\<forall>old. files h1 (unzippedFolder e) = Some (Dir old) \<longrightarrow>
             (\<exists>new. files h2 (unzippedFolder e) = Some (Dir new) \<and>
                    fst ` set old \<subseteq> fst ` set new)"
      "files h1 (unzippedFolder e) \<noteq> None \<longrightarrow> files h2 (unzippedFolder e) \<noteq> None"
    and f: "\<forall>p. p \<noteq> Path_join (temporary_directory e) ''scriptUpdate.zip'' \<and>
              p \<noteq> unzippedFolder e \<longrightarrow> files h2 p = files h1 p"
  shows "staging_kept e h h2"
proof -
  from k obtain cs where cs: "calls h1 = calls h @ cs" "set cs \<subseteq> download_calls e"
    "CreateDirectory (unzippedFolder e) \<in> set cs \<longrightarrow> files h (unzippedFolder e) = None"
    and old: "\<forall>old. files h (unzippedFolder e) = Some (Dir old) \<longrightarrow>
             (\<exists>new. files h1 (unzippedFolder e) = Some (Dir new) \<and>
                    fst ` set old \<subseteq> fst ` set new)"
    and ex: "files h (unzippedFolder e) \<noteq> None \<longrightarrow> files h1 (unzippedFolder e) \<noteq> None"
    and fr: "\<forall>p. p \<noteq> Path_join (temporary_directory e) ''scriptUpdate.zip'' \<and>
              p \<noteq> unzippedFolder e \<longrightarrow> files h1 p = files h p"
    unfolding staging_kept_def by blast
  have 1: "\<exists>cs'. calls h2 = calls h @ cs' \<and> set cs' \<subseteq> download_calls e \<and>
            (CreateDirectory (unzippedFolder e) \<in> set cs' \<longrightarrow> files h (unzippedFolder e) = None)"
  proof (intro exI [of _ "cs @ [call]"] conjI impI)
    show "calls h2 = calls h @ cs @ [call]" using c(1) cs(1) by simp
    show "set (cs @ [call]) \<subseteq> download_calls e" using c(2) cs(2) by simp
    assume "CreateDirectory (unzippedFolder e) \<in> set (cs @ [call])"
    then show "files h (unzippedFolder e) = None"
      using cs(3) c(3) ex by auto
  qed
  have 2: "\<forall>old. files h (unzippedFolder e) = Some (Dir old) \<longrightarrow>
             (\<exists>new. files h2 (unzippedFolder e) = Some (Dir new) \<and>
                    fst ` set old \<subseteq> fst ` set new)"
  proof (intro allI impI)
    fix old assume "files h (unzippedFolder e) = Some (Dir old)"
    with old obtain mid where m: "files h1 (unzippedFolder e) = Some (Dir mid)"
      "fst ` set old \<subseteq> fst ` set mid" by blast
    with d(1) obtain new where "files h2 (unzippedFolder e) = Some (Dir new)"
      "fst ` set mid \<subseteq> fst ` set new" by blast
    with m show "\<exists>new. files h2 (unzippedFolder e) = Some (Dir new) \<and>
                    fst ` set old \<subseteq> fst ` set new" by blast
  qed
  from 1 2 ex d(2) fr f show ?thesis
    unfolding staging_kept_def by simp
qed

lemma staging_kept_writeAsData:
  assumes "staging_kept e h h1"
    and "writeAsData e (Path_join (temporary_directory e) ''scriptUpdate.zip'') content h1 = (r, h2)"
  shows "staging_kept e h h2"
proof -
  let ?zip = "Path_join (temporary_directory e) ''scriptUpdate.zip''"
  from assms(2) have c: "calls h2 = calls h1 @ [WriteAsData ?zip]"
    and f: "files h2 = files h1 \<or> files h2 = (files h1)(?zip \<mapsto> File content)"
    by (auto simp: writeAsData_def dest!: fs_op_any split: option.splits node.splits)
  from f zip_differs [of "temporary_directory e" e]
  have "files h2 (unzippedFolder e) = files h1 (unzippedFolder e)"
    "\<forall>p. p \<noteq> ?zip \<and> p \<noteq> unzippedFolder e \<longrightarrow> files h2 p = files h1 p"
    by auto
  with assms(1) c show ?thesis
    by (intro staging_kept_step [of e h h1 h2 "WriteAsData ?zip"]) (simp_all add: download_calls_def)
qed

lemma staging_kept_createDirectory:
  assumes "staging_kept e h h1" and "\<not> existsSync (unzippedFolder e) h1"
    and "createDirectory e (unzippedFolder e) recursive h1 = (r, h2)"
  shows "staging_kept e h h2"
proof -
  from assms(2) have n: "files h1 (unzippedFolder e) = None"
    by (simp add: existsSync_def)
  from assms(3) n have c: "calls h2 = calls h1 @ [CreateDirectory (unzippedFolder e)]"
    and f: "files h2 = files h1 \<or> files h2 = (files h1)(unzippedFolder e \<mapsto> Dir [])"
    by (auto simp: createDirectory_def dest!: fs_op_any)
  from f have "\<forall>p. p \<noteq> Path_join (temporary_directory e) ''scriptUpdate.zip'' \<and>
      p \<noteq> unzippedFolder e \<longrightarrow> files h2 p = files h1 p"
    by auto
  with assms(1) c n show ?thesis
    by (intro staging_kept_step [of e h h1 h2 "CreateDirectory (unzippedFolder e)"])
      (simp_all add: download_calls_def)
qed

lemma staging_kept_unzip:
  assumes "staging_kept e h h1"
    and "unzip e (Path_join (temporary_directory e) ''scriptUpdate.zip'') (unzippedFolder e) h1 = (r, h2)"
  shows "staging_kept e h h2"
proof -
  let ?zip = "Path_join (temporary_directory e) ''scriptUpdate.zip''"
  let ?dir = "unzippedFolder e"
  from assms(2) have c: "calls h2 = calls h1 @ [Unzip ?zip ?dir]"
    and f: "files h2 = files h1 \<or>
      (\<exists>archive old. files h1 ?dir = Some (Dir old) \<and>
         files h2 = (files h1)(?dir \<mapsto> Dir (unzip_into archive old)))"
    by (auto simp: unzip_def fs_op_def Let_def split: if_splits option.splits node.splits)
  from f have 1: "\<forall>old. files h1 ?dir = Some (Dir old) \<longrightarrow>
             (\<exists>new. files h2 ?dir = Some (Dir new) \<and> fst ` set old \<subseteq> fst ` set new)"
    by (auto simp: unzip_into_names)
  from f have 2: "files h1 ?dir \<noteq> None \<longrightarrow> files h2 ?dir \<noteq> None"
    and 3: "\<forall>p. p \<noteq> ?zip \<and> p \<noteq> ?dir \<longrightarrow> files h2 p = files h1 p"
    by auto
  from assms(1) c 1 2 3 show ?thesis
    by (intro staging_kept_step [of e h h1 h2 "Unzip ?zip ?dir"]) (simp_all add: download_calls_def)
qed

lemma staging_kept_readDirectory:
  assumes "staging_kept e h h1"
    and "readDirectory e (unzippedFolder e) recursive h1 = (r, h2)"
  shows "staging_kept e h h2"
proof -
  from assms(2) have c: "calls h2 = calls h1 @ [ReadDirectory (unzippedFolder e)]"
    and f: "files h2 = files h1"
    by (auto simp: readDirectory_def dest!: fs_op_any split: option.splits node.splits)
  from assms(1) c f show ?thesis
    by (intro staging_kept_step [of e h h1 h2 "ReadDirectory (unzippedFolder e)"])
      (simp_all add: download_calls_def)
qed

lemma downloadUpdate_staging_kept: "staging_kept e h (snd (downloadUpdate e address h))"
proof -
  let ?zip = "Path_join (temporary_directory e) ''scriptUpdate.zip''"
  let ?dir = "unzippedFolder e"
  show ?thesis
  proof (cases "\<exists>r content. fetch e address = Some r \<and> ok r \<and>
      fromArrayBuffer e (bytes r) = Some content")
    case False
    then have "snd (downloadUpdate e address h) = h"
      by (auto simp: downloadUpdate_def Let_def split: option.splits)
    then show ?thesis by (simp add: staging_kept_refl)
  next
    case True
    then obtain r content where
      a: "fetch e address = Some r" "ok r" "fromArrayBuffer e (bytes r) = Some content"
      by blast
    obtain r1 h1 where w: "writeAsData e ?zip content h = (r1, h1)"
      by (cases "writeAsData e ?zip content h")
    from staging_kept_writeAsData [OF staging_kept_refl w] have k1: "staging_kept e h h1" .
    obtain r2 h2 where
      c: "(if \<not> existsSync ?dir h1 then createDirectory e ?dir True h1 else (Inr (), h1)) = (r2, h2)"
      by (cases "if \<not> existsSync ?dir h1 then createDirectory e ?dir True h1 else (Inr (), h1)")
    have k2: "staging_kept e h h2"
    proof (cases "existsSync ?dir h1")
      case True
      with c k1 show ?thesis by simp
    next
      case False
      with c have "createDirectory e ?dir True h1 = (r2, h2)" by simp
      from staging_kept_createDirectory [OF k1 False this] show ?thesis .
    qed
    obtain r3 h3 where u: "unzip e ?zip ?dir h2 = (r3, h3)"
      by (cases "unzip e ?zip ?dir h2")
    from staging_kept_unzip [OF k2 u] have k3: "staging_kept e h h3" .
    obtain r4 h4 where rd: "readDirectory e ?dir True h3 = (r4, h4)"
      by (cases "readDirectory e ?dir True h3")
    from staging_kept_readDirectory [OF k3 rd] have k4: "staging_kept e h h4" .
    show ?thesis
    proof (cases r1)
      case (Inl err)
      with a w have "downloadUpdate e address h = (Inl err, h1)"
        by (simp add: downloadUpdate_def Let_def)
      with k1 show ?thesis by simp
    next
      case r1: (Inr x1)
      show ?thesis
      proof (cases r2)
        case (Inl err)
        with a w r1 c have "downloadUpdate e address h = (Inl err, h2)"
          by (simp add: downloadUpdate_def Let_def)
        with k2 show ?thesis by simp
      next
        case r2: (Inr x2)
        show ?thesis
        proof (cases r3)
          case (Inl err)
          with a w r1 c r2 u have "downloadUpdate e address h = (Inl err, h3)"
            by (simp add: downloadUpdate_def Let_def)
          with k3 show ?thesis by simp
        next
          case (Inr x3)
          with a w r1 c r2 u rd have "downloadUpdate e address h = (r4, h4)"
            by (simp add: downloadUpdate_def Let_def)
          with k4 show ?thesis by simp
        qed
      qed
    qed
  qed
qed

text \<open>
  Claim C10. No call of \<^verbatim>\<open>downloadUpdate\<close>, whatever it returns or throws, removes or
  empties the staging directory: the file operations it asks for are the write of the
  archive, the creation of the staging directory (only when it is absent), the extraction
  and the listing, never a removal or a rename; a staging directory that exists is still
  a directory afterwards and holds at least the file names it held; and no path but the
  archive and the staging directory changes. When the call returns, the staging directory
  holds the entries it held with the entries of the archive put over them (the entries of
  the archive only, when it was absent), and the listing is the set of their names, so
  every file name left by an earlier download is listed. A following install that
  succeeds moves the whole staging directory, those files with it, to the script
  directory. After a cleanup that succeeds the staging directory is absent.
\<close>

theorem download_keeps_staged_files:
  "staging_kept e h (snd (downloadUpdate e address h)) \<and>
   (downloadUpdate e address h = (Inr listing, h') \<and>
      files h (unzippedFolder e) = Some (Dir old) \<longrightarrow>
    (\<exists>archive.
       files h' (unzippedFolder e) = Some (Dir (unzip_into archive old)) \<and>
       listing = fst ` set (unzip_into archive old) \<and>
       fst ` set old \<subseteq> listing \<and>
       calls h' =
         calls h @
         [WriteAsData (Path_join (temporary_directory e) ''scriptUpdate.zip''),
          Unzip (Path_join (temporary_directory e) ''scriptUpdate.zip'') (unzippedFolder e),
          ReadDirectory (unzippedFolder e)])) \<and>
   (downloadUpdate e address h = (Inr listing, h') \<and> files h (unzippedFolder e) = None \<longrightarrow>
    (\<exists>archive.
       files h' (unzippedFolder e) = Some (Dir (unzip_into archive [])) \<and>
       listing = fst ` set (unzip_into archive []) \<and>
       calls h' =
         calls h @
         [WriteAsData (Path_join (temporary_directory e) ''scriptUpdate.zip''),
          CreateDirectory (unzippedFolder e),
          Unzip (Path_join (temporary_directory e) ''scriptUpdate.zip'') (unzippedFolder e),
          ReadDirectory (unzippedFolder e)])) \<and>
   (installDownloadedScript e g = (Inr (), g') \<and> unzippedFolder e \<noteq> scriptBackup e \<longrightarrow>
    files g' (script_directory e) = files g (unzippedFolder e)) \<and>
   (cleanFiles e k = (Inr (), k') \<longrightarrow> files k' (unzippedFolder e) = None)"
proof (intro conjI impI)
  show "staging_kept e h (snd (downloadUpdate e address h))"
    by (rule downloadUpdate_staging_kept)
next
  assume a: "downloadUpdate e address h = (Inr listing, h') \<and>
      files h (unzippedFolder e) = Some (Dir old)"
  from downloadUpdate_Inr [of e address h listing h'] a
  obtain archive where
    "files h' (unzippedFolder e) = Some (Dir (unzip_into archive old))"
    "listing = fst ` set (unzip_into archive old)"
    "calls h' =
         calls h @
         [WriteAsData (Path_join (temporary_directory e) ''scriptUpdate.zip''),
          Unzip (Path_join (temporary_directory e) ''scriptUpdate.zip'') (unzippedFolder e),
          ReadDirectory (unzippedFolder e)]"
    by auto
  moreover from this have "fst ` set old \<subseteq> listing"
    by (simp add: unzip_into_names)
  ultimately show "\<exists>archive.
       files h' (unzippedFolder e) = Some (Dir (unzip_into archive old)) \<and>
       listing = fst ` set (unzip_into archive old) \<and>
       fst ` set old \<subseteq> listing \<and>
       calls h' =
         calls h @
         [WriteAsData (Path_join (temporary_directory e) ''scriptUpdate.zip''),
          Unzip (Path_join (temporary_directory e) ''scriptUpdate.zip'') (unzippedFolder e),
          ReadDirectory (unzippedFolder e)]"
    by blast
next
  assume a: "downloadUpdate e address h = (Inr listing, h') \<and> files h (unzippedFolder e) = None"
  from downloadUpdate_Inr [of e address h listing h'] a
  show "\<exists>archive.
       files h' (unzippedFolder e) = Some (Dir (unzip_into archive [])) \<and>
       listing = fst ` set (unzip_into archive []) \<and>
       calls h' =
         calls h @
         [WriteAsData (Path_join (temporary_directory e) ''scriptUpdate.zip''),
          CreateDirectory (unzippedFolder e),
          Unzip (Path_join (temporary_directory e) ''scriptUpdate.zip'') (unzippedFolder e),
          ReadDirectory (unzippedFolder e)]"
    by auto
next
  assume "installDownloadedScript e g = (Inr (), g') \<and> unzippedFolder e \<noteq> scriptBackup e"
  then show "files g' (script_directory e) = files g (unzippedFolder e)"
    using installDownloadedScript_Inr [of e g g'] by simp
next
  assume "cleanFiles e k = (Inr (), k')"
  then show "files k' (unzippedFolder e) = None"
    using cleanFiles_Inr [of e k k'] by simp
qed

theorem download_keeps_staged_files_witness:
  "fst (downloadUpdate archive_env ''https://example.org/2.0.zip'' stale_host) =
     Inr {''stale.tsx'', ''index.tsx''} \<and>
   files stale_host (unzippedFolder archive_env) = Some (Dir [(''stale.tsx'', ''earlier'')]) \<and>
   calls (snd (downloadUpdate archive_env ''https://example.org/2.0.zip'' stale_host)) =
     [WriteAsData ''/tmp/scriptUpdate.zip'',
      Unzip ''/tmp/scriptUpdate.zip'' ''/tmp/scriptUpdate'',
      ReadDirectory ''/tmp/scriptUpdate''] \<and>
   fst (downloadUpdate archive_env ''https://example.org/2.0.zip'' fresh_host) =
     Inr {''index.tsx''} \<and>
   files fresh_host (unzippedFolder archive_env) = None \<and>
   calls (snd (downloadUpdate archive_env ''https://example.org/2.0.zip'' fresh_host)) =
     [WriteAsData ''/tmp/scriptUpdate.zip'',
      CreateDirectory ''/tmp/scriptUpdate'',
      Unzip ''/tmp/scriptUpdate.zip'' ''/tmp/scriptUpdate'',
      ReadDirectory ''/tmp/scriptUpdate''] \<and>
   fst (installDownloadedScript archive_env
          (snd (downloadUpdate archive_env ''https://example.org/2.0.zip'' stale_host))) = Inr () \<and>
   files (snd (installDownloadedScript archive_env
          (snd (downloadUpdate archive_env ''https://example.org/2.0.zip'' stale_host))))
     ''/scripts/demo'' =
     Some (Dir [(''stale.tsx'', ''earlier''), (''index.tsx'', ''new'')]) \<and>
   fst (cleanFiles archive_env stale_host) = Inr () \<and>
   files (snd (cleanFiles archive_env stale_host)) ''/tmp/scriptUpdate'' = None \<and>
   fst (downloadUpdate (archive_env\<lparr>fs_fault := (\<lambda>n. n = 1)\<rparr>) ''https://example.org/2.0.zip''
          stale_host) = Inl FileError \<and>
   staging_kept (archive_env\<lparr>fs_fault := (\<lambda>n. n = 1)\<rparr>) stale_host
     (snd (downloadUpdate (archive_env\<lparr>fs_fault := (\<lambda>n. n = 1)\<rparr>)
            ''https://example.org/2.0.zip'' stale_host))"
proof -
  let ?u = "''https://example.org/2.0.zip''"
  let ?d = "downloadUpdate archive_env ?u stale_host"
  let ?f = "downloadUpdate archive_env ?u fresh_host"
  let ?i = "installDownloadedScript archive_env (snd ?d)"
  let ?c = "cleanFiles archive_env stale_host"
  let ?broken = "archive_env\<lparr>fs_fault := (\<lambda>n. n = 1)\<rparr>"
  have env: "unzippedFolder archive_env = ''/tmp/scriptUpdate''"
    "script_directory archive_env = ''/scripts/demo''"
    "scriptBackup archive_env = ''/scripts/demo_updateBackup''"
    "temporary_directory archive_env = ''/tmp''"
    by (simp_all add: archive_env_def host_eval)
  have d1: "fst ?d = Inr {''stale.tsx'', ''index.tsx''}"
    and d2: "files (snd ?d) ''/tmp/scriptUpdate'' =
      Some (Dir [(''stale.tsx'', ''earlier''), (''index.tsx'', ''new'')])"
    by (simp_all add: fs_eval archive_env_def stale_host_def host_eval)
  have f1: "fst ?f = Inr {''index.tsx''}"
    by (simp add: fs_eval archive_env_def fresh_host_def host_eval)
  have st: "files stale_host (unzippedFolder archive_env) = Some (Dir [(''stale.tsx'', ''earlier'')])"
    by (simp add: env) (simp add: stale_host_def)
  have fr: "files fresh_host (unzippedFolder archive_env) = None"
    by (simp add: env) (simp add: fresh_host_def)
  have i1: "fst ?i = Inr ()"
    by (simp add: fs_eval archive_env_def stale_host_def host_eval)
  have c1: "fst ?c = Inr ()"
    by (simp add: fs_eval archive_env_def stale_host_def host_eval)
  have b1: "fst (downloadUpdate ?broken ?u stale_host) = Inl FileError"
    by (simp add: fs_eval archive_env_def stale_host_def host_eval)
  have d: "?d = (Inr {''stale.tsx'', ''index.tsx''}, snd ?d)"
    using d1 by (simp add: prod_eq_iff)
  have f: "?f = (Inr {''index.tsx''}, snd ?f)"
    using f1 by (simp add: prod_eq_iff)
  have i: "?i = (Inr (), snd ?i)"
    using i1 by (simp add: prod_eq_iff)
  have c: "?c = (Inr (), snd ?c)"
    using c1 by (simp add: prod_eq_iff)
  note t = download_keeps_staged_files [of archive_env stale_host ?u
      "{''stale.tsx'', ''index.tsx''}" "snd ?d" "[(''stale.tsx'', ''earlier'')]"
      "snd ?d" "snd ?i" stale_host "snd ?c"]
  from t [THEN conjunct2, THEN conjunct1, THEN mp, OF conjI [OF d st]] have
    "calls (snd ?d) = calls stale_host @
         [WriteAsData (Path_join (temporary_directory archive_env) ''scriptUpdate.zip''),
          Unzip (Path_join (temporary_directory archive_env) ''scriptUpdate.zip'')
            (unzippedFolder archive_env),
          ReadDirectory (unzippedFolder archive_env)]"
    by (elim exE conjE)
  then have k: "calls (snd ?d) =
     [WriteAsData ''/tmp/scriptUpdate.zip'',
      Unzip ''/tmp/scriptUpdate.zip'' ''/tmp/scriptUpdate'',
      ReadDirectory ''/tmp/scriptUpdate'']"
    by (simp add: env Path_join_def) (simp add: stale_host_def)
  from download_keeps_staged_files [of archive_env fresh_host ?u "{''index.tsx''}" "snd ?f",
      THEN conjunct2, THEN conjunct2, THEN conjunct1, THEN mp, OF conjI [OF f fr]]
  have "calls (snd ?f) = calls fresh_host @
         [WriteAsData (Path_join (temporary_directory archive_env) ''scriptUpdate.zip''),
          CreateDirectory (unzippedFolder archive_env),
          Unzip (Path_join (temporary_directory archive_env) ''scriptUpdate.zip'')
            (unzippedFolder archive_env),
          ReadDirectory (unzippedFolder archive_env)]"
    by (elim exE conjE)
  then have k2: "calls (snd ?f) =
     [WriteAsData ''/tmp/scriptUpdate.zip'',
      CreateDirectory ''/tmp/scriptUpdate'',
      Unzip ''/tmp/scriptUpdate.zip'' ''/tmp/scriptUpdate'',
      ReadDirectory ''/tmp/scriptUpdate'']"
    by (simp add: env Path_join_def) (simp add: fresh_host_def)
  have ne: "unzippedFolder archive_env \<noteq> scriptBackup archive_env"
    by (simp add: env)
  from t [THEN conjunct2, THEN conjunct2, THEN conjunct2, THEN conjunct1, THEN mp,
      OF conjI [OF i ne]]
  have "files (snd ?i) ''/scripts/demo'' = files (snd ?d) ''/tmp/scriptUpdate''"
    by (simp add: env)
  with d2 have l: "files (snd ?i) ''/scripts/demo'' =
      Some (Dir [(''stale.tsx'', ''earlier''), (''index.tsx'', ''new'')])" by simp
  from t [THEN conjunct2, THEN conjunct2, THEN conjunct2, THEN conjunct2, THEN mp, OF c]
  have m: "files (snd ?c) ''/tmp/scriptUpdate'' = None"
    by (simp add: env)
  note n = download_keeps_staged_files [of ?broken stale_host ?u, THEN conjunct1]
  from d1 st k f1 fr k2 i1 l c1 m b1 n show ?thesis by simp
qed

end
